theory Spec2Isabelle
  imports Complex_Main
begin

section \<open>Strings and characters\<close>

text \<open>
  A JavaScript string is a sequence of UTF-16 code units. It is modelled as a \<open>string\<close>
  whose characters are the code units below 256 (Latin-1); the numeric value of a code
  unit is \<open>of_char\<close>. Everything below is the behaviour of the built-ins on that range;
  the code units from 256 on are outside the model. Within the range, two characters are
  equal under the \<open>i\<close> flag of a pattern exactly when their lower-case forms are equal,
  so the flag is modelled by \<open>toLowerCase\<close> as well.
\<close>

definition is_digit :: "char \<Rightarrow> bool" where
  \<comment> \<open>the class \<open>\d\<close>, that is \<open>[0-9]\<close>\<close>
  "is_digit c = (let n = of_char c :: nat in 48 \<le> n \<and> n \<le> 57)"

definition is_alpha :: "char \<Rightarrow> bool" where
  \<comment> \<open>the class \<open>[A-Za-z]\<close>\<close>
  "is_alpha c = (let n = of_char c :: nat in (65 \<le> n \<and> n \<le> 90) \<or> (97 \<le> n \<and> n \<le> 122))"

definition is_alnum :: "char \<Rightarrow> bool" where
  \<comment> \<open>the class \<open>[A-Za-z0-9]\<close>\<close>
  "is_alnum c = (is_alpha c \<or> is_digit c)"

definition is_space :: "char \<Rightarrow> bool" where
  \<comment> \<open>the class \<open>\s\<close>, which is also what \<open>trim\<close> strips: TAB, LF, VT, FF, CR, SP, NBSP\<close>
  "is_space c = (let n = of_char c :: nat in (9 \<le> n \<and> n \<le> 13) \<or> n = 32 \<or> n = 160)"

definition is_upper :: "char \<Rightarrow> bool" where
  \<comment> \<open>the code units that \<open>toLowerCase\<close> changes: A-Z and the Latin-1 capitals 0xC0-0xDE but 0xD7\<close>
  "is_upper c = (let n = of_char c :: nat in
     (65 \<le> n \<and> n \<le> 90) \<or> (192 \<le> n \<and> n \<le> 222 \<and> n \<noteq> 215))"

definition lower_char :: "char \<Rightarrow> char" where
  \<comment> \<open>the lower-case letter is 32 above its capital: the capitals have bit 5 clear\<close>
  "lower_char c = (if is_upper c
     then (case c of Char b0 b1 b2 b3 b4 b5 b6 b7 \<Rightarrow> Char b0 b1 b2 b3 b4 True b6 b7)
     else c)"

definition toLowerCase :: "string \<Rightarrow> string" where
  "toLowerCase s = map lower_char s"

definition trim :: "string \<Rightarrow> string" where
  "trim s = rev (dropWhile is_space (rev (dropWhile is_space s)))"

fun str_includes :: "string \<Rightarrow> string \<Rightarrow> bool" where
  \<comment> \<open>\<open>s.includes(sub)\<close>\<close>
  "str_includes [] sub = (sub = [])"
| "str_includes (c # cs) sub = (take (length sub) (c # cs) = sub \<or> str_includes cs sub)"

fun join :: "string \<Rightarrow> string list \<Rightarrow> string" where
  \<comment> \<open>\<open>xs.join(sep)\<close>\<close>
  "join sep [] = []"
| "join sep [x] = x"
| "join sep (x # y # ys) = x @ sep @ join sep (y # ys)"

definition slice :: "'a list \<Rightarrow> nat \<Rightarrow> nat \<Rightarrow> 'a list" where
  \<comment> \<open>\<open>xs.slice(a, b)\<close> for indices that are not negative\<close>
  "slice xs a b = take (b - a) (drop a xs)"

fun findIndex :: "('a \<Rightarrow> bool) \<Rightarrow> 'a list \<Rightarrow> nat option" where
  \<comment> \<open>\<open>xs.findIndex(p)\<close>; \<open>None\<close> is the result -1\<close>
  "findIndex p [] = None"
| "findIndex p (x # xs) = (if p x then Some 0 else map_option Suc (findIndex p xs))"

definition or_else :: "string \<Rightarrow> string \<Rightarrow> string" where
  \<comment> \<open>\<open>a || b\<close> on strings: the empty string is the only falsy one\<close>
  "or_else a b = (if a = [] then b else a)"

definition LF :: char where "LF = CHR 0x0A"
definition CR :: char where "CR = CHR 0x0D"

fun split_lines :: "string \<Rightarrow> string \<Rightarrow> string list" where
  \<comment> \<open>\<open>text.split(/\r?\n/)\<close>: \<open>cur\<close> is the piece read since the last separator\<close>
  "split_lines cur [] = [cur]"
| "split_lines cur [c] = (if c = LF then [cur, []] else [cur @ [c]])"
| "split_lines cur (c # d # cs) =
     (if c = CR \<and> d = LF then cur # split_lines [] cs
      else if c = LF then cur # split_lines [] (d # cs)
      else split_lines (cur @ [c]) (d # cs))"

definition doc_lines :: "string \<Rightarrow> string list" where
  \<comment> \<open>\<open>text.split(/\r?\n/).map((l) => l.trim()).filter(Boolean)\<close>\<close>
  "doc_lines text = filter (\<lambda>l. l \<noteq> []) (map trim (split_lines [] text))"

fun split_sp :: "string \<Rightarrow> string \<Rightarrow> string list" where
  \<comment> \<open>\<open>norm.split(" ")\<close>\<close>
  "split_sp cur [] = [cur]"
| "split_sp cur (c # cs) =
     (if c = CHR '' '' then cur # split_sp [] cs else split_sp (cur @ [c]) cs)"

function collapse_ws :: "string \<Rightarrow> string" where
  \<comment> \<open>\<open>line.replace(/\s+/g, " ")\<close>: every maximal run of white space becomes one space\<close>
  "collapse_ws [] = []"
| "collapse_ws (c # cs) =
     (if is_space c then CHR '' '' # collapse_ws (dropWhile is_space cs)
      else c # collapse_ws cs)"
  by pat_completeness auto
termination
  by (relation "measure length") (auto simp: length_dropWhile_le less_Suc_eq_le)

section \<open>Regular expressions\<close>

text \<open>
  The patterns of the source are sequences of literals, alternations of literals and
  character classes under a greedy quantifier, with capture groups that are not nested
  and the anchors \<open>^\<close> and \<open>$\<close>. \<open>rx_run\<close> is the backtracking matcher at one
  position: it returns the captures of the first match in the order a JavaScript engine
  tries them (alternatives left to right, a quantifier from its longest run down).
\<close>

datatype piece =
    RLit string
  | RAlt "string list"
  | RRep "char \<Rightarrow> bool" nat "nat option"
  | ROpen
  | RClose
  | RBos
  | REos

record regex =
  ignoreCase :: bool
  pieces :: "piece list"

definition lit_match :: "bool \<Rightarrow> string \<Rightarrow> string \<Rightarrow> bool" where
  "lit_match ci l s =
     (length l \<le> length s \<and>
      (if ci then toLowerCase (take (length l) s) = toLowerCase l else take (length l) s = l))"

definition run_len :: "(char \<Rightarrow> bool) \<Rightarrow> nat option \<Rightarrow> string \<Rightarrow> nat" where
  "run_len cls hi s = length (takeWhile cls (case hi of None \<Rightarrow> s | Some h \<Rightarrow> take h s))"

fun piece_weight :: "piece \<Rightarrow> nat" where
  "piece_weight (RAlt ls) = length ls + 2"
| "piece_weight _ = 1"

function rx_run :: "bool \<Rightarrow> piece list \<Rightarrow> nat \<Rightarrow> string \<Rightarrow> string option \<Rightarrow> string list
      \<Rightarrow> string list option"
  and rx_rep :: "bool \<Rightarrow> nat \<Rightarrow> nat \<Rightarrow> piece list \<Rightarrow> nat \<Rightarrow> string \<Rightarrow> string option
      \<Rightarrow> string list \<Rightarrow> string list option" where
  "rx_run ci [] pos s opn caps = Some (rev caps)"
| "rx_run ci (RLit l # ps) pos s opn caps =
     (if lit_match ci l s then rx_run ci ps (pos + length l) (drop (length l) s) opn caps
      else None)"
| "rx_run ci (RAlt [] # ps) pos s opn caps = None"
| "rx_run ci (RAlt (l # ls) # ps) pos s opn caps =
     (case rx_run ci (RLit l # ps) pos s opn caps of
        Some r \<Rightarrow> Some r
      | None \<Rightarrow> rx_run ci (RAlt ls # ps) pos s opn caps)"
| "rx_run ci (RRep cls lo hi # ps) pos s opn caps =
     rx_rep ci lo (run_len cls hi s) ps pos s opn caps"
| "rx_run ci (ROpen # ps) pos s opn caps = rx_run ci ps pos s (Some s) caps"
| "rx_run ci (RClose # ps) pos s opn caps =
     (case opn of
        None \<Rightarrow> None
      | Some s0 \<Rightarrow> rx_run ci ps pos s None (take (length s0 - length s) s0 # caps))"
| "rx_run ci (RBos # ps) pos s opn caps =
     (if pos = 0 then rx_run ci ps pos s opn caps else None)"
| "rx_run ci (REos # ps) pos s opn caps =
     (if s = [] then rx_run ci ps pos s opn caps else None)"
| "rx_rep ci lo k ps pos s opn caps =
     (if k < lo then None
      else case rx_run ci ps (pos + k) (drop k s) opn caps of
        Some r \<Rightarrow> Some r
      | None \<Rightarrow> (if k = 0 then None else rx_rep ci lo (k - 1) ps pos s opn caps))"
  by pat_completeness auto
termination
  by (relation "measures
        [\<lambda>x. case x of Inl (ci, ps, r) \<Rightarrow> sum_list (map piece_weight ps)
                      | Inr (ci, lo, k, ps, r) \<Rightarrow> sum_list (map piece_weight ps),
         \<lambda>x. case x of Inl r \<Rightarrow> 0 | Inr (ci, lo, k, r) \<Rightarrow> Suc k]")
     auto

fun rx_search :: "regex \<Rightarrow> nat \<Rightarrow> string \<Rightarrow> string list option" where
  \<comment> \<open>the first position, from the left, at which the pattern matches\<close>
  "rx_search re pos [] = rx_run (ignoreCase re) (pieces re) pos [] None []"
| "rx_search re pos (c # cs) =
     (case rx_run (ignoreCase re) (pieces re) pos (c # cs) None [] of
        Some r \<Rightarrow> Some r
      | None \<Rightarrow> rx_search re (Suc pos) cs)"

definition rx_match :: "regex \<Rightarrow> string \<Rightarrow> string list option" where
  \<comment> \<open>\<open>s.match(re)\<close> without the g flag: \<open>None\<close> is null, else the groups m[1], m[2], ...\<close>
  "rx_match re s = rx_search re 0 s"

definition rx_test :: "regex \<Rightarrow> string \<Rightarrow> bool" where
  \<comment> \<open>\<open>re.test(s)\<close>\<close>
  "rx_test re s = (rx_match re s \<noteq> None)"

section \<open>The patterns of \<open>ocr-invoice.js\<close>\<close>

definition paint_re :: regex where
  \<comment> \<open>\<open>/paint/i\<close>\<close>
  "paint_re = \<lparr>ignoreCase = True, pieces = [RLit ''paint'']\<rparr>"

definition digit_re :: regex where
  \<comment> \<open>\<open>/\d/\<close>\<close>
  "digit_re = \<lparr>ignoreCase = False, pieces = [RRep is_digit 1 (Some 1)]\<rparr>"

definition unit_re :: regex where
  \<comment> \<open>\<open>/(pint|quart|gallon|pt|qt|gal)/i\<close>\<close>
  "unit_re = \<lparr>ignoreCase = True,
     pieces = [ROpen, RAlt [''pint'', ''quart'', ''gallon'', ''pt'', ''qt'', ''gal''], RClose]\<rparr>"

definition wa_re :: regex where
  \<comment> \<open>\<open>/^wa\d{3,5}$/i\<close>\<close>
  "wa_re = \<lparr>ignoreCase = True, pieces = [RBos, RLit ''wa'', RRep is_digit 3 (Some 5), REos]\<rparr>"

definition short_re :: regex where
  \<comment> \<open>\<open>/^[A-Za-z0-9]{2,6}$/\<close>\<close>
  "short_re = \<lparr>ignoreCase = False, pieces = [RBos, RRep is_alnum 2 (Some 6), REos]\<rparr>"

definition price_re :: regex where
  \<comment> \<open>\<open>/\d+\.\d{2}/\<close>\<close>
  "price_re = \<lparr>ignoreCase = False,
     pieces = [RRep is_digit 1 None, RLit ''.'', RRep is_digit 2 (Some 2)]\<rparr>"

definition invoice_re :: regex where
  \<comment> \<open>\<open>/Invoice\s*#\s*([0-9]+)/i\<close>\<close>
  "invoice_re = \<lparr>ignoreCase = True,
     pieces = [RLit ''Invoice'', RRep is_space 0 None, RLit ''#'', RRep is_space 0 None,
               ROpen, RRep is_digit 1 None, RClose]\<rparr>"

definition is_dollar :: "char \<Rightarrow> bool" where
  "is_dollar c = (c = CHR ''$'')"

definition is_digit_or_comma :: "char \<Rightarrow> bool" where
  \<comment> \<open>the class \<open>[\d,]\<close>\<close>
  "is_digit_or_comma c = (is_digit c \<or> c = CHR '','')"

definition amount_pieces :: "piece list" where
  \<comment> \<open>the common tail \<open>\s*\$?\s*([\d,]+\.\d{2})\<close> of the two patterns of \<open>extractTotal\<close>\<close>
  "amount_pieces =
     [RRep is_space 0 None, RRep is_dollar 0 (Some 1), RRep is_space 0 None,
      ROpen, RRep is_digit_or_comma 1 None, RLit ''.'', RRep is_digit 2 (Some 2), RClose]"

definition total_re :: regex where
  \<comment> \<open>\<open>/Total\s*\$?\s*([\d,]+\.\d{2})/i\<close>\<close>
  "total_re = \<lparr>ignoreCase = True, pieces = RLit ''Total'' # amount_pieces\<rparr>"

definition due_re :: regex where
  \<comment> \<open>\<open>/(amount due|balance due)\s*\$?\s*([\d,]+\.\d{2})/i\<close>\<close>
  "due_re = \<lparr>ignoreCase = True,
     pieces = [ROpen, RAlt [''amount due'', ''balance due''], RClose] @ amount_pieces\<rparr>"

section \<open>Numbers and failures\<close>

text \<open>
  A number is NaN or a finite value. \<open>parseFloat\<close> is modelled on the strings its two
  call sites pass, which hold digits and dots only (\<open>tokens[i].replace(/[^\d.]/g, "")\<close>
  and a match of \<open>[\d,]+\.\d{2}\<close> without its commas), so no sign, exponent or
  \<open>Infinity\<close> can occur. The value is that of the longest prefix that is a decimal
  literal (\<open>12\<close>, \<open>12.\<close>, \<open>12.5\<close>, \<open>.5\<close>), as an exact rational: the rounding to a
  binary64, and with it the value \<open>Infinity\<close> of a literal beyond its range, is not
  modelled. The values the statements name (0.5, 1, 2, 180, 202, 1250) are binary64
  values, so nothing is rounded there.
\<close>

datatype number = NaN | Num rat

definition digits_val :: "string \<Rightarrow> nat" where
  "digits_val ds = foldl (\<lambda>n c. 10 * n + (of_char c - 48)) 0 ds"

definition parseFloat :: "string \<Rightarrow> number" where
  "parseFloat s =
     (let ip = takeWhile is_digit s; r = dropWhile is_digit s in
      case r of
        [] \<Rightarrow> (if ip = [] then NaN else Num (of_nat (digits_val ip)))
      | c # r' \<Rightarrow>
          if c = CHR ''.'' then
            (let fp = takeWhile is_digit r' in
             if ip = [] \<and> fp = [] then NaN
             else Num (of_nat (digits_val ip) + of_nat (digits_val fp) / 10 ^ length fp))
          else (if ip = [] then NaN else Num (of_nat (digits_val ip))))"

text \<open>
  The only way these functions can throw is a method call on \<open>undefined\<close>, the value of
  an array or of a match read outside its range. Every such read is checked in the model
  and is a \<open>TypeError\<close> when it is out of range.
\<close>

datatype js_error = TypeError

definition at_index :: "'a list \<Rightarrow> nat \<Rightarrow> js_error + 'a" where
  \<comment> \<open>\<open>xs[i]\<close>\<close>
  "at_index xs i = (if i < length xs then Inr (xs ! i) else Inl TypeError)"

definition group :: "string list \<Rightarrow> nat \<Rightarrow> js_error + string" where
  \<comment> \<open>\<open>m[k]\<close> for a group \<open>k \<ge> 1\<close> of a match \<open>m\<close>\<close>
  "group m k = (if 1 \<le> k then at_index m (k - 1) else Inl TypeError)"

section \<open>Header field extractors\<close>

definition skip_words :: "string list" where
  "skip_words = [''invoice'', ''bill to'', ''ship to'', ''date'', ''total'', ''www'', ''.com'', ''ga'']"

definition is_boilerplate :: "string \<Rightarrow> bool" where
  \<comment> \<open>the chain of \<open>lower.includes(...)\<close> joined by \<open>||\<close>\<close>
  "is_boilerplate raw = (let lower = toLowerCase raw in list_ex (str_includes lower) skip_words)"

fun supplier_loop :: "string list \<Rightarrow> nat list \<Rightarrow> js_error + string" where
  \<comment> \<open>the loop \<open>for (let i = 0; i < Math.min(lines.length, 10); i++)\<close> over its indices\<close>
  "supplier_loop lines [] = Inr []"
| "supplier_loop lines (i # is) =
     (case at_index lines i of
        Inl e \<Rightarrow> Inl e
      | Inr raw \<Rightarrow>
          if is_boilerplate raw then supplier_loop lines is
          else (let letters = length (filter is_alpha raw) in
                if 4 \<le> letters then Inr raw else supplier_loop lines is))"

definition extractSupplier :: "string \<Rightarrow> js_error + string" where
  "extractSupplier text =
     (let lines = doc_lines text in supplier_loop lines [0 ..< min (length lines) 10])"

definition extractInvoiceNumber :: "string \<Rightarrow> js_error + string" where
  "extractInvoiceNumber text =
     (case rx_match invoice_re text of
        Some m \<Rightarrow> group m 1
      | None \<Rightarrow>
          (case find (\<lambda>l. str_includes (toLowerCase l) ''invoice'') (split_lines [] text) of
             Some fallback \<Rightarrow> Inr (or_else fallback [])
           | None \<Rightarrow> Inr []))"

definition remove_commas :: "string \<Rightarrow> string" where
  \<comment> \<open>\<open>s.replace(/,/g, "")\<close>\<close>
  "remove_commas s = filter (\<lambda>c. c \<noteq> CHR '','') s"

definition extractTotal :: "string \<Rightarrow> js_error + number option" where
  \<comment> \<open>\<open>None\<close> is the result null\<close>
  "extractTotal text =
     (case rx_match total_re text of
        Some m \<Rightarrow>
          (case group m 1 of Inl e \<Rightarrow> Inl e
           | Inr g \<Rightarrow> Inr (Some (parseFloat (remove_commas g))))
      | None \<Rightarrow>
          (case rx_match due_re text of
             Some alt \<Rightarrow>
               (case group alt 2 of Inl e \<Rightarrow> Inl e
                | Inr g \<Rightarrow> Inr (Some (parseFloat (remove_commas g))))
           | None \<Rightarrow> Inr None))"

section \<open>Paint line items\<close>

definition normalizeUnit :: "string \<Rightarrow> string" where
  "normalizeUnit u =
     (let l = toLowerCase u in
      if take 4 l = ''pint'' \<or> l = ''pt'' then ''Pint''
      else if take 5 l = ''quart'' \<or> l = ''qt'' then ''Quart''
      else if take 6 l = ''gallon'' \<or> l = ''gal'' then ''Gallon''
      else u)"

record item =
  qty :: number
  unit :: string
  make' :: string  \<comment> \<open>the field \<open>make\<close>\<close>
  code :: string
  color :: string

definition unitWords :: "string list" where
  "unitWords = [''pint'', ''pints'', ''pt'', ''quart'', ''quarts'', ''qt'', ''gallon'', ''gallons'', ''gal'']"

definition brandWords :: "string list" where
  "brandWords = [''mipa'', ''ppg'', ''basf'', ''sherwin'', ''dupont'', ''spi'', ''standox'']"

definition normalize_line :: "string \<Rightarrow> string" where
  \<comment> \<open>\<open>line.replace(/\s+/g, " ").trim()\<close>\<close>
  "normalize_line line = trim (collapse_ws line)"

definition start_index :: "string list \<Rightarrow> nat" where
  \<comment> \<open>\<open>startIdx\<close>: the index of the first token that is the word paint, or 0\<close>
  "start_index tokens =
     (case findIndex (\<lambda>t. toLowerCase t = ''paint'') tokens of None \<Rightarrow> 0 | Some pIdx \<Rightarrow> pIdx)"

definition clean_number :: "string \<Rightarrow> string" where
  \<comment> \<open>\<open>t.replace(/[^\d.]/g, "")\<close>\<close>
  "clean_number t = filter (\<lambda>c. is_digit c \<or> c = CHR ''.'') t"

fun qty_loop :: "string list \<Rightarrow> nat list \<Rightarrow> js_error + (nat \<times> number) option" where
  \<comment> \<open>step 1, over the indices of its \<open>for\<close>; \<open>None\<close> is \<open>qtyIdx === -1\<close>\<close>
  "qty_loop tokens [] = Inr None"
| "qty_loop tokens (i # is) =
     (case at_index tokens i of
        Inl e \<Rightarrow> Inl e
      | Inr t \<Rightarrow>
          (let cleaned = clean_number t in
           if cleaned = [] then qty_loop tokens is
           else (case parseFloat cleaned of
                   NaN \<Rightarrow> qty_loop tokens is
                 | Num q \<Rightarrow> Inr (Some (i, Num q)))))"

definition find_qty :: "string list \<Rightarrow> nat \<Rightarrow> js_error + (nat \<times> number) option" where
  "find_qty tokens startIdx =
     qty_loop tokens [startIdx + 1 ..< min (length tokens) (startIdx + 6)]"

fun unit_loop :: "string list \<Rightarrow> nat list \<Rightarrow> js_error + (nat \<times> string) option" where
  \<comment> \<open>step 2, over the indices of its \<open>for\<close>; \<open>None\<close> is \<open>unitIdx === -1\<close>, \<open>unit === ""\<close>\<close>
  "unit_loop tokens [] = Inr None"
| "unit_loop tokens (i # is) =
     (case at_index tokens i of
        Inl e \<Rightarrow> Inl e
      | Inr t \<Rightarrow>
          (let low = toLowerCase t in
           if low \<in> set unitWords then Inr (Some (i, t)) else unit_loop tokens is))"

definition find_unit :: "string list \<Rightarrow> nat \<Rightarrow> js_error + (nat \<times> string) option" where
  "find_unit tokens qtyIdx =
     unit_loop tokens [qtyIdx + 1 ..< min (length tokens) (qtyIdx + 4)]"

fun code_loop :: "regex \<Rightarrow> string list \<Rightarrow> nat list \<Rightarrow> js_error + (nat \<times> string) option" where
  \<comment> \<open>the loops 3a and 3b, which differ in the pattern only; \<open>None\<close> is \<open>codeIdx === -1\<close>\<close>
  "code_loop re tokens [] = Inr None"
| "code_loop re tokens (i # is) =
     (case at_index tokens i of
        Inl e \<Rightarrow> Inl e
      | Inr tok \<Rightarrow> if rx_test re tok then Inr (Some (i, tok)) else code_loop re tokens is)"

definition find_code :: "string list \<Rightarrow> nat \<Rightarrow> js_error + (nat \<times> string) option" where
  \<comment> \<open>step 3: the WA pattern over the whole remainder first, the short code only after that\<close>
  "find_code tokens searchFrom =
     (case code_loop wa_re tokens [searchFrom ..< length tokens] of
        Inl e \<Rightarrow> Inl e
      | Inr (Some r) \<Rightarrow> Inr (Some r)
      | Inr None \<Rightarrow> code_loop short_re tokens [searchFrom ..< length tokens])"

definition drop_brands :: "string list \<Rightarrow> string list" where
  \<comment> \<open>\<open>rawMakeTokens.filter((t) => !brandWords.includes(t.toLowerCase()))\<close>\<close>
  "drop_brands ts = filter (\<lambda>t. toLowerCase t \<notin> set brandWords) ts"

definition make_from :: "string list \<Rightarrow> string" where
  \<comment> \<open>\<open>make\<close> starts as "Unknown" and is replaced when the filtered span is not empty\<close>
  "make_from rawMakeTokens =
     (let filtered = drop_brands rawMakeTokens in
      if 0 < length filtered then join '' '' filtered else ''Unknown'')"

definition derive_make :: "string list \<Rightarrow> nat \<Rightarrow> nat \<Rightarrow> nat \<Rightarrow> (nat \<times> string) option \<Rightarrow> string" where
  \<comment> \<open>step 4\<close>
  "derive_make tokens startIdx qtyIdx unitIdx found =
     (case found of
        None \<Rightarrow> ''Unknown''
      | Some (codeIdx, c) \<Rightarrow>
          if unitIdx + 1 < codeIdx then make_from (slice tokens (unitIdx + 1) codeIdx)
          else if startIdx + 1 < qtyIdx then make_from (slice tokens (startIdx + 1) qtyIdx)
          else ''Unknown'')"

definition derive_color :: "string list \<Rightarrow> (nat \<times> string) option \<Rightarrow> js_error + string" where
  \<comment> \<open>step 5; \<open>codeIdx < tokens.length - 1\<close> is written without the subtraction\<close>
  "derive_color tokens found =
     (case found of
        None \<Rightarrow> Inr []
      | Some (codeIdx, c) \<Rightarrow>
          if codeIdx + 1 < length tokens then
            (let colorTokens = drop (codeIdx + 1) tokens in
             case at_index colorTokens (length colorTokens - 1) of
               Inl e \<Rightarrow> Inl e
             | Inr lst \<Rightarrow>
                 Inr (join '' '' (if rx_test price_re lst then butlast colorTokens
                                  else colorTokens)))
          else Inr [])"

definition parsePaintLineFlexible :: "string \<Rightarrow> js_error + item option" where
  \<comment> \<open>\<open>Inr None\<close> is the result null\<close>
  "parsePaintLineFlexible line =
     (let norm = normalize_line line in
      if \<not> rx_test paint_re norm then Inr None
      else
        (let tokens = split_sp [] norm; startIdx = start_index tokens in
         case find_qty tokens startIdx of
           Inl e \<Rightarrow> Inl e
         | Inr None \<Rightarrow> Inr None
         | Inr (Some (qtyIdx, q)) \<Rightarrow>
             (case find_unit tokens qtyIdx of
                Inl e \<Rightarrow> Inl e
              | Inr None \<Rightarrow> Inr None
              | Inr (Some (unitIdx, u)) \<Rightarrow>
                  if u = [] then Inr None
                  else
                    (case find_code tokens (unitIdx + 1) of
                       Inl e \<Rightarrow> Inl e
                     | Inr found \<Rightarrow>
                         (case derive_color tokens found of
                            Inl e \<Rightarrow> Inl e
                          | Inr col \<Rightarrow>
                              Inr (Some \<lparr>qty = q,
                                unit = or_else (normalizeUnit u) (or_else u []),
                                make' = or_else (derive_make tokens startIdx qtyIdx unitIdx found)
                                         ''Unknown'',
                                code = or_else (case found of None \<Rightarrow> [] | Some (i, c) \<Rightarrow> c) [],
                                color = or_else col []\<rparr>))))))"

section \<open>The notes of the invoice\<close>

text \<open>
  \<open>formatPaintItems\<close> prints the quantity with JavaScript's conversion of a number to a
  string, which is arithmetic on binary64 values and is not modelled: it is the parameter
  \<open>show_num\<close>.
\<close>

definition format_item :: "(number \<Rightarrow> string) \<Rightarrow> item \<Rightarrow> string" where
  \<comment> \<open>the template \<open>make | code | color | qty unit\<close>\<close>
  "format_item show_num parsed =
     make' parsed @ '' | '' @ code parsed @ '' | '' @ color parsed @ '' | ''
       @ show_num (qty parsed) @ '' '' @ unit parsed"

fun format_loop :: "(number \<Rightarrow> string) \<Rightarrow> string list \<Rightarrow> js_error + string list" where
  \<comment> \<open>the loop of \<open>formatPaintItems\<close>; the result is \<open>parsedItems\<close>\<close>
  "format_loop show_num [] = Inr []"
| "format_loop show_num (line # ls) =
     (if \<not> rx_test paint_re line then format_loop show_num ls
      else if \<not> rx_test digit_re line then format_loop show_num ls
      else if \<not> rx_test unit_re line then format_loop show_num ls
      else
        (case parsePaintLineFlexible line of
           Inl e \<Rightarrow> Inl e
         | Inr res \<Rightarrow>
             (case format_loop show_num ls of
                Inl e \<Rightarrow> Inl e
              | Inr parsedItems \<Rightarrow>
                  (case res of
                     None \<Rightarrow> Inr parsedItems
                   | Some parsed \<Rightarrow>
                       if code parsed \<noteq> [] then Inr (format_item show_num parsed # parsedItems)
                       else Inr parsedItems))))"

definition formatPaintItems :: "(number \<Rightarrow> string) \<Rightarrow> string \<Rightarrow> js_error + string" where
  "formatPaintItems show_num text =
     (case format_loop show_num (doc_lines text) of
        Inl e \<Rightarrow> Inl e
      | Inr parsedItems \<Rightarrow> if length parsedItems = 0 then Inr [] else Inr (join [LF] parsedItems))"

definition extractPaintLinesFallback :: "string \<Rightarrow> string" where
  "extractPaintLinesFallback text = join [LF] (filter (rx_test paint_re) (doc_lines text))"

record summary =
  supplier :: string
  invoice_number :: string
  cost :: "number option"
  notes' :: string  \<comment> \<open>the field \<open>notes\<close>\<close>

definition handler_parsed :: "(number \<Rightarrow> string) \<Rightarrow> string \<Rightarrow> js_error + summary" where
  \<comment> \<open>the handler from the transcript \<open>text\<close> on: the guard \<open>if (!text)\<close> and the object \<open>parsed\<close>\<close>
  "handler_parsed show_num text =
     (if text = [] then
        Inr \<lparr>supplier = [], invoice_number = [], cost = None, notes' = ''No text detected''\<rparr>
      else
        (case extractSupplier text of
           Inl e \<Rightarrow> Inl e
         | Inr supp \<Rightarrow>
             (case extractInvoiceNumber text of
                Inl e \<Rightarrow> Inl e
              | Inr invno \<Rightarrow>
                  (case extractTotal text of
                     Inl e \<Rightarrow> Inl e
                   | Inr tot \<Rightarrow>
                       (case formatPaintItems show_num text of
                          Inl e \<Rightarrow> Inl e
                        | Inr items \<Rightarrow>
                            Inr \<lparr>supplier = supp, invoice_number = invno, cost = tot,
                              notes' = or_else items
                                        (or_else (extractPaintLinesFallback text)
                                           (take 800 text))\<rparr>)))))"

section \<open>Notions used in the statements\<close>

definition tokenize :: "string \<Rightarrow> string list" where
  \<comment> \<open>the array \<open>tokens\<close> of \<open>parsePaintLineFlexible\<close>\<close>
  "tokenize line = split_sp [] (normalize_line line)"

definition parses_as_number :: "string \<Rightarrow> bool" where
  \<comment> \<open>the test of the quantity loop: the cleaned token is not empty and its value is not NaN\<close>
  "parses_as_number t = (clean_number t \<noteq> [] \<and> parseFloat (clean_number t) \<noteq> NaN)"

fun count_groups :: "piece list \<Rightarrow> nat" where
  \<comment> \<open>the number of capture groups of a pattern\<close>
  "count_groups [] = 0"
| "count_groups (RClose # ps) = Suc (count_groups ps)"
| "count_groups (p # ps) = count_groups ps"

definition matches_at :: "regex \<Rightarrow> string \<Rightarrow> nat \<Rightarrow> bool" where
  \<comment> \<open>the pattern has a match that starts at position \<open>k\<close> of \<open>s\<close>\<close>
  "matches_at re s k = (rx_run (ignoreCase re) (pieces re) k (drop k s) None [] \<noteq> None)"

section \<open>The unit normalizer\<close>

lemma take_eq_prefix: "length p = n \<Longrightarrow> (take n l = p) = (\<exists>r. l = p @ r)"
  by (metis append_eq_conv_conj)

text \<open>
  C9: \<open>normalizeUnit\<close> is defined on every token and works on its lower-case form. A
  token that starts with pint or is pt, in any casing, becomes "Pint"; one that starts
  with quart or is qt becomes "Quart"; one that starts with gallon or is gal becomes
  "Gallon"; every other token is returned as it is.
\<close>

theorem normalizeUnit_spec:
  "((\<exists>r. toLowerCase u = ''pint'' @ r) \<or> toLowerCase u = ''pt'' \<longrightarrow> normalizeUnit u = ''Pint'') \<and>
   ((\<exists>r. toLowerCase u = ''quart'' @ r) \<or> toLowerCase u = ''qt'' \<longrightarrow> normalizeUnit u = ''Quart'') \<and>
   ((\<exists>r. toLowerCase u = ''gallon'' @ r) \<or> toLowerCase u = ''gal'' \<longrightarrow> normalizeUnit u = ''Gallon'') \<and>
   (\<not> ((\<exists>r. toLowerCase u = ''pint'' @ r) \<or> toLowerCase u = ''pt'') \<and>
    \<not> ((\<exists>r. toLowerCase u = ''quart'' @ r) \<or> toLowerCase u = ''qt'') \<and>
    \<not> ((\<exists>r. toLowerCase u = ''gallon'' @ r) \<or> toLowerCase u = ''gal'') \<longrightarrow> normalizeUnit u = u)"
proof -
  have p: "(take 4 (toLowerCase u) = ''pint'') = (\<exists>r. toLowerCase u = ''pint'' @ r)"
    by (rule take_eq_prefix) simp
  have q: "(take 5 (toLowerCase u) = ''quart'') = (\<exists>r. toLowerCase u = ''quart'' @ r)"
    by (rule take_eq_prefix) simp
  have g: "(take 6 (toLowerCase u) = ''gallon'') = (\<exists>r. toLowerCase u = ''gallon'' @ r)"
    by (rule take_eq_prefix) simp
  show ?thesis
    unfolding normalizeUnit_def Let_def p q g by auto
qed

theorem normalizeUnit_spec_witness:
  "normalizeUnit ''pint'' = ''Pint'' \<and> normalizeUnit ''pt'' = ''Pint'' \<and>
   normalizeUnit ''PINT'' = ''Pint'' \<and> normalizeUnit ''Pints'' = ''Pint'' \<and>
   normalizeUnit ''QT'' = ''Quart'' \<and> normalizeUnit ''Gallons'' = ''Gallon'' \<and>
   normalizeUnit ''oz'' = ''oz''"
  using normalizeUnit_spec [of "''pint''"] normalizeUnit_spec [of "''pt''"]
    normalizeUnit_spec [of "''PINT''"] normalizeUnit_spec [of "''Pints''"]
    normalizeUnit_spec [of "''QT''"] normalizeUnit_spec [of "''Gallons''"]
    normalizeUnit_spec [of "''oz''"]
  by (simp add: toLowerCase_def lower_char_def is_upper_def)

lemma normalizeUnit_canonical:
  "toLowerCase u \<in> set unitWords \<Longrightarrow> normalizeUnit u \<in> {''Pint'', ''Quart'', ''Gallon''}"
  by (auto simp: unitWords_def normalizeUnit_def)

section \<open>The patterns in plain terms\<close>

text \<open>
  What the matcher decides for the patterns the statements below speak of: \<open>/paint/i\<close>
  holds of the strings whose lower-case form contains paint, \<open>/^[A-Za-z0-9]{2,6}$/\<close> of
  the strings of two to six letters and digits, and \<open>/^wa\d{3,5}$/i\<close> of the strings whose
  lower-case form is wa followed by three to five digits.
\<close>

lemma str_includes_iff: "str_includes s sub = (\<exists>pre post. s = pre @ sub @ post)"
proof (induction s)
  case Nil
  then show ?case by auto
next
  case (Cons c cs)
  have here: "(take (length sub) (c # cs) = sub) = (\<exists>post. c # cs = sub @ post)"
    by (rule take_eq_prefix) simp
  have "(\<exists>pre post. c # cs = pre @ sub @ post) =
        ((\<exists>post. c # cs = sub @ post) \<or> (\<exists>pre post. cs = pre @ sub @ post))"
  proof
    assume "\<exists>pre post. c # cs = pre @ sub @ post"
    then obtain pre post where e: "c # cs = pre @ sub @ post" by blast
    show "(\<exists>post. c # cs = sub @ post) \<or> (\<exists>pre post. cs = pre @ sub @ post)"
    proof (cases pre)
      case Nil
      with e show ?thesis by auto
    next
      case (Cons a pre')
      with e have "cs = pre' @ sub @ post" by simp
      then show ?thesis by blast
    qed
  next
    assume "(\<exists>post. c # cs = sub @ post) \<or> (\<exists>pre post. cs = pre @ sub @ post)"
    then show "\<exists>pre post. c # cs = pre @ sub @ post"
    proof
      assume "\<exists>post. c # cs = sub @ post"
      then obtain post where "c # cs = [] @ sub @ post" by auto
      then show ?thesis by blast
    next
      assume "\<exists>pre post. cs = pre @ sub @ post"
      then obtain pre post where "c # cs = (c # pre) @ sub @ post" by auto
      then show ?thesis by blast
    qed
  qed
  with here Cons.IH show ?case by simp
qed

lemma lit_match_ci: "lit_match True l s = (take (length l) (toLowerCase s) = toLowerCase l)"
proof -
  have tk: "toLowerCase (take (length l) s) = take (length l) (toLowerCase s)"
    by (simp add: toLowerCase_def take_map)
  show ?thesis
  proof
    assume "lit_match True l s"
    then show "take (length l) (toLowerCase s) = toLowerCase l"
      by (simp add: lit_match_def tk)
  next
    assume a: "take (length l) (toLowerCase s) = toLowerCase l"
    then have "length (take (length l) (toLowerCase s)) = length (toLowerCase l)" by simp
    then have "length l \<le> length s" by (simp add: toLowerCase_def)
    with a show "lit_match True l s" by (simp add: lit_match_def tk)
  qed
qed

lemma lower_paint: "toLowerCase ''paint'' = ''paint''"
  by (simp add: toLowerCase_def lower_char_def is_upper_def)

lemma search_lit:
  assumes "toLowerCase sub = sub"
  shows "(rx_search \<lparr>ignoreCase = True, pieces = [RLit sub]\<rparr> pos s \<noteq> None) =
     str_includes (toLowerCase s) sub"
proof (induction s arbitrary: pos)
  case Nil
  have "lit_match True sub [] = (sub = [])"
    using lit_match_ci [of sub "[]"] assms by (auto simp: toLowerCase_def)
  then show ?case by (simp add: toLowerCase_def)
next
  case (Cons c cs)
  have here: "lit_match True sub (c # cs) = (take (length sub) (toLowerCase (c # cs)) = sub)"
    using lit_match_ci [of sub "c # cs"] by (simp only: assms)
  have "(rx_search \<lparr>ignoreCase = True, pieces = [RLit sub]\<rparr> pos (c # cs) \<noteq> None) =
        (lit_match True sub (c # cs) \<or>
         rx_search \<lparr>ignoreCase = True, pieces = [RLit sub]\<rparr> (Suc pos) cs \<noteq> None)"
    by (simp split: option.splits)
  also have "\<dots> = (take (length sub) (toLowerCase (c # cs)) = sub \<or>
      str_includes (toLowerCase cs) sub)"
    by (simp only: here Cons.IH)
  also have "\<dots> = str_includes (toLowerCase (c # cs)) sub"
    by (simp add: toLowerCase_def)
  finally show ?case .
qed

lemma paint_search:
  "(rx_search paint_re pos s \<noteq> None) = str_includes (toLowerCase s) ''paint''"
  unfolding paint_re_def by (rule search_lit) (rule lower_paint)

lemma paint_re_plain:
  "rx_test paint_re s = (\<exists>pre post. toLowerCase s = pre @ ''paint'' @ post)"
  unfolding rx_test_def rx_match_def paint_search str_includes_iff by (rule refl)

lemma rx_rep_eos:
  "(rx_rep ci lo k [REos] pos s opn caps \<noteq> None) = (lo \<le> k \<and> length s \<le> k)"
proof (induction k)
  case 0
  then show ?case by simp
next
  case (Suc k)
  show ?case
  proof (cases "length s \<le> Suc k")
    case True
    then show ?thesis by auto
  next
    case False
    with Suc show ?thesis by auto
  qed
qed

lemma takeWhile_full: "length (takeWhile P xs) = length xs \<Longrightarrow> takeWhile P xs = xs"
proof -
  assume a: "length (takeWhile P xs) = length xs"
  have "length (takeWhile P xs @ dropWhile P xs) = length xs" by simp
  then have "length (takeWhile P xs) + length (dropWhile P xs) = length xs"
    by (simp only: length_append)
  with a have "dropWhile P xs = []" by simp
  then show ?thesis using takeWhile_dropWhile_id [of P xs] by simp
qed

lemma run_len_le: "run_len cls (Some h) s \<le> length s"
proof -
  have "length (takeWhile cls (take h s)) \<le> length (take h s)"
    by (rule length_takeWhile_le)
  then show ?thesis by (simp add: run_len_def)
qed

lemma run_len_full:
  "(length s \<le> run_len cls (Some h) s) = (length s \<le> h \<and> list_all cls s)"
proof
  assume a: "length s \<le> run_len cls (Some h) s"
  have "length (takeWhile cls (take h s)) \<le> length (take h s)"
    by (rule length_takeWhile_le)
  with a have "length s \<le> length (take h s)" by (simp add: run_len_def)
  then have h: "length s \<le> h" by simp
  then have "run_len cls (Some h) s = length (takeWhile cls s)" by (simp add: run_len_def)
  with a have "length (takeWhile cls s) = length s"
    using length_takeWhile_le [of cls s] by simp
  then have "takeWhile cls s = s" by (rule takeWhile_full)
  then have "list_all cls s" by (simp add: takeWhile_eq_all_conv list_all_iff)
  with h show "length s \<le> h \<and> list_all cls s" by simp
next
  assume b: "length s \<le> h \<and> list_all cls s"
  then have t: "takeWhile cls s = s" by (simp add: takeWhile_eq_all_conv list_all_iff)
  from b have "run_len cls (Some h) s = length (takeWhile cls s)" by (simp add: run_len_def)
  also have "\<dots> = length s" by (simp only: t)
  finally show "length s \<le> run_len cls (Some h) s" by simp
qed

lemma bos_later: "pieces re = RBos # ps \<Longrightarrow> rx_search re (Suc pos) s = None"
  by (induction s arbitrary: pos) simp_all

lemma bos_match:
  "pieces re = RBos # ps \<Longrightarrow> rx_match re s = rx_run (ignoreCase re) ps 0 s None []"
  unfolding rx_match_def by (cases s) (simp_all add: bos_later split: option.splits)

lemma short_re_plain:
  "rx_test short_re t = (2 \<le> length t \<and> length t \<le> 6 \<and> list_all is_alnum t)"
proof -
  have "rx_match short_re t =
      rx_run (ignoreCase short_re) [RRep is_alnum 2 (Some 6), REos] 0 t None []"
    by (rule bos_match) (simp add: short_re_def)
  also have "ignoreCase short_re = False" by (simp add: short_re_def)
  finally have "rx_match short_re t =
      rx_rep False 2 (run_len is_alnum (Some 6) t) [REos] 0 t None []"
    by (simp del: rx_rep.simps)
  then have "rx_test short_re t =
      (2 \<le> run_len is_alnum (Some 6) t \<and> length t \<le> run_len is_alnum (Some 6) t)"
    by (simp only: rx_test_def rx_rep_eos)
  also have "\<dots> = (2 \<le> length t \<and> length t \<le> 6 \<and> list_all is_alnum t)"
    using run_len_le [of is_alnum 6 t] run_len_full [of t is_alnum 6] by auto
  finally show ?thesis .
qed

lemma digits_lower: "list_all is_digit ds \<Longrightarrow> toLowerCase ds = ds"
proof (induction ds)
  case Nil
  then show ?case by (simp add: toLowerCase_def)
next
  case (Cons d ds)
  then have "\<not> is_upper d" by (auto simp: is_digit_def is_upper_def Let_def)
  with Cons show ?case by (simp add: toLowerCase_def lower_char_def)
qed

lemma digit_lower_char: "is_digit (lower_char c) = is_digit c"
proof (cases "is_upper c")
  case False
  then show ?thesis by (simp add: lower_char_def)
next
  case True
  then have a: "\<not> is_digit c" by (auto simp: is_digit_def is_upper_def Let_def)
  obtain b0 b1 b2 b3 b4 b5 b6 b7 where c: "c = Char b0 b1 b2 b3 b4 b5 b6 b7" by (cases c)
  have le: "of_bool b \<le> (1::nat)" for b by (cases b) simp_all
  have b: "b6 \<or> b7"
  proof (rule ccontr)
    assume "\<not> (b6 \<or> b7)"
    then have "(of_char c :: nat) \<le> 63"
      unfolding c using le [of b0] le [of b1] le [of b2] le [of b3] le [of b4] le [of b5]
      by simp
    with True show False by (simp add: is_upper_def Let_def)
  qed
  have "\<not> is_digit (Char b0 b1 b2 b3 b4 True b6 b7)"
    using b by (auto simp: is_digit_def Let_def)
  with a True show ?thesis by (simp add: lower_char_def c)
qed

lemma digits_of_lower: "list_all is_digit (toLowerCase ds) = list_all is_digit ds"
  by (induction ds) (simp_all add: toLowerCase_def digit_lower_char)

lemma lower_wa: "toLowerCase ''wa'' = ''wa''"
  by (simp add: toLowerCase_def lower_char_def is_upper_def)

lemma wa_re_plain:
  "rx_test wa_re t =
     (\<exists>ds. toLowerCase t = ''wa'' @ ds \<and> 3 \<le> length ds \<and> length ds \<le> 5 \<and> list_all is_digit ds)"
proof -
  have lit: "lit_match True ''wa'' t = (take 2 (toLowerCase t) = ''wa'')"
    using lit_match_ci [of "''wa''" t] by (simp only: lower_wa) (simp add: numeral_2_eq_2)
  have "rx_match wa_re t =
      rx_run (ignoreCase wa_re) [RLit ''wa'', RRep is_digit 3 (Some 5), REos] 0 t None []"
    by (rule bos_match) (simp add: wa_re_def)
  also have "ignoreCase wa_re = True" by (simp add: wa_re_def)
  finally have m: "rx_match wa_re t =
      (if lit_match True ''wa'' t
       then rx_rep True 3 (run_len is_digit (Some 5) (drop 2 t)) [REos] 2 (drop 2 t) None []
       else None)"
    by (simp add: numeral_2_eq_2 del: rx_rep.simps)
  have "rx_test wa_re t =
      (lit_match True ''wa'' t \<and>
       rx_rep True 3 (run_len is_digit (Some 5) (drop 2 t)) [REos] 2 (drop 2 t) None [] \<noteq> None)"
    unfolding rx_test_def m by (simp del: rx_rep.simps)
  also have "\<dots> =
      (take 2 (toLowerCase t) = ''wa'' \<and> 3 \<le> run_len is_digit (Some 5) (drop 2 t) \<and>
       length (drop 2 t) \<le> run_len is_digit (Some 5) (drop 2 t))"
    by (simp only: rx_rep_eos lit)
  also have "\<dots> = (take 2 (toLowerCase t) = ''wa'' \<and> 3 \<le> length (drop 2 t) \<and>
      length (drop 2 t) \<le> 5 \<and> list_all is_digit (drop 2 t))"
    using run_len_le [of is_digit 5 "drop 2 t"] run_len_full [of "drop 2 t" is_digit 5] by auto
  also have "\<dots> = (\<exists>ds. toLowerCase t = ''wa'' @ ds \<and> 3 \<le> length ds \<and> length ds \<le> 5 \<and>
      list_all is_digit ds)"
  proof
    assume a: "take 2 (toLowerCase t) = ''wa'' \<and> 3 \<le> length (drop 2 t) \<and>
      length (drop 2 t) \<le> 5 \<and> list_all is_digit (drop 2 t)"
    have "toLowerCase t = take 2 (toLowerCase t) @ drop 2 (toLowerCase t)" by simp
    also have "drop 2 (toLowerCase t) = toLowerCase (drop 2 t)"
      by (simp add: toLowerCase_def drop_map)
    also have "\<dots> = drop 2 t" using a by (simp add: digits_lower)
    finally have "toLowerCase t = ''wa'' @ drop 2 t" using a by simp
    with a show "\<exists>ds. toLowerCase t = ''wa'' @ ds \<and> 3 \<le> length ds \<and> length ds \<le> 5 \<and>
      list_all is_digit ds" by blast
  next
    assume "\<exists>ds. toLowerCase t = ''wa'' @ ds \<and> 3 \<le> length ds \<and> length ds \<le> 5 \<and>
      list_all is_digit ds"
    then obtain ds where e: "toLowerCase t = ''wa'' @ ds" and l: "3 \<le> length ds" "length ds \<le> 5"
      and d: "list_all is_digit ds" by blast
    from e have t2: "take 2 (toLowerCase t) = ''wa''" by simp
    have "toLowerCase (drop 2 t) = drop 2 (toLowerCase t)"
      by (simp add: toLowerCase_def drop_map)
    with e have ds: "toLowerCase (drop 2 t) = ds" by simp
    then have "length (drop 2 t) = length ds"
      by (metis length_map toLowerCase_def)
    moreover have "list_all is_digit (drop 2 t)"
      using d ds digits_of_lower [of "drop 2 t"] by simp
    ultimately show "take 2 (toLowerCase t) = ''wa'' \<and> 3 \<le> length (drop 2 t) \<and>
      length (drop 2 t) \<le> 5 \<and> list_all is_digit (drop 2 t)"
      using t2 l by simp
  qed
  finally show ?thesis .
qed

section \<open>The parser on single lines\<close>

lemma unit_loop_Some:
  "unit_loop tokens is = Inr (Some (i, u)) \<Longrightarrow>
     toLowerCase u \<in> set unitWords \<and> i \<in> set is \<and> at_index tokens i = Inr u"
  by (induction "is") (auto simp: Let_def split: sum.splits if_splits)

text \<open>
  C10: whenever \<open>parsePaintLineFlexible\<close> returns an item, the unit of the item is one
  of "Pint", "Quart" and "Gallon": the unit token is accepted only when its lower-case
  form is in \<open>unitWords\<close>, and \<open>normalizeUnit\<close> sends each of those to a canonical name.
\<close>

theorem parsed_unit_canonical:
  "parsePaintLineFlexible line = Inr (Some it) \<Longrightarrow> unit it \<in> {''Pint'', ''Quart'', ''Gallon''}"
proof -
  assume a: "parsePaintLineFlexible line = Inr (Some it)"
  then obtain tokens qi u ui where
    fu: "find_unit tokens qi = Inr (Some (ui, u))" and
    un: "unit it = or_else (normalizeUnit u) (or_else u [])"
    by (auto simp: parsePaintLineFlexible_def Let_def split: if_splits sum.splits option.splits)
  from fu have "toLowerCase u \<in> set unitWords"
    unfolding find_unit_def by (auto dest: unit_loop_Some)
  then have c: "normalizeUnit u \<in> {''Pint'', ''Quart'', ''Gallon''}"
    by (rule normalizeUnit_canonical)
  then have "normalizeUnit u \<noteq> []" by auto
  with un c show ?thesis by (simp add: or_else_def)
qed

theorem parsed_unit_canonical_witness:
  "parsePaintLineFlexible ''Paint 2 Quarts k3g 122.00 122.00'' =
     Inr (Some \<lparr>qty = Num 2, unit = ''Quart'', make' = ''Unknown'', code = ''k3g'',
                 color = ''122.00''\<rparr>)
   \<and> unit \<lparr>qty = Num 2, unit = ''Quart'', make' = ''Unknown'', code = ''k3g'',
             color = ''122.00''\<rparr>
       \<in> {''Pint'', ''Quart'', ''Gallon''}"
proof -
  have h: "parsePaintLineFlexible ''Paint 2 Quarts k3g 122.00 122.00'' =
     Inr (Some \<lparr>qty = Num 2, unit = ''Quart'', make' = ''Unknown'', code = ''k3g'',
                 color = ''122.00''\<rparr>)"
    by code_simp
  show ?thesis using h parsed_unit_canonical [OF h] by simp
qed

text \<open>
  C3: on the line "Paint 0.5 Pint GM/CHEV WA8624 WHITE 85-26" the parser returns the item
  with make "GM/CHEV", code "WA8624", color "WHITE 85-26", quantity 0.5 and unit "Pint".
\<close>

theorem anchor_precedence_example:
  "parsePaintLineFlexible ''Paint 0.5 Pint GM/CHEV WA8624 WHITE 85-26'' =
     Inr (Some \<lparr>qty = Num (1 / 2), unit = ''Pint'', make' = ''GM/CHEV'', code = ''WA8624'',
                 color = ''WHITE 85-26''\<rparr>)"
  by code_simp

section \<open>No extractor throws\<close>

lemma slice_indices: "slice xs a b = map ((!) xs) [a ..< min (length xs) b]"
  unfolding slice_def
proof (rule nth_equalityI)
  show "length (take (b - a) (drop a xs)) = length (map ((!) xs) [a ..< min (length xs) b])"
    by auto
next
  fix i
  assume "i < length (take (b - a) (drop a xs))"
  then have lt: "a + i < min (length xs) b" by auto
  then have "i < length [a ..< min (length xs) b]" unfolding length_upt by arith
  then have "map ((!) xs) [a ..< min (length xs) b] ! i = xs ! ([a ..< min (length xs) b] ! i)"
    by (rule nth_map)
  also have "\<dots> = xs ! (a + i)" using lt by (simp only: nth_upt)
  also have "\<dots> = drop a xs ! i" using lt by simp
  also have "\<dots> = take (b - a) (drop a xs) ! i"
  proof -
    have "i < b - a" using lt by arith
    then show ?thesis by simp
  qed
  finally show "take (b - a) (drop a xs) ! i = map ((!) xs) [a ..< min (length xs) b] ! i"
    by simp
qed

lemma qty_loop_total: "\<forall>i\<in>set is. i < length tokens \<Longrightarrow> \<exists>r. qty_loop tokens is = Inr r"
  by (induction "is") (auto simp: at_index_def Let_def split: number.splits)

lemma unit_loop_total: "\<forall>i\<in>set is. i < length tokens \<Longrightarrow> \<exists>r. unit_loop tokens is = Inr r"
  by (induction "is") (auto simp: at_index_def Let_def)

lemma code_loop_total: "\<forall>i\<in>set is. i < length tokens \<Longrightarrow> \<exists>r. code_loop re tokens is = Inr r"
  by (induction "is") (auto simp: at_index_def)

lemma find_qty_total: "\<exists>r. find_qty tokens s = Inr r"
  unfolding find_qty_def by (rule qty_loop_total) simp

lemma find_unit_total: "\<exists>r. find_unit tokens q = Inr r"
  unfolding find_unit_def by (rule unit_loop_total) simp

lemma find_code_total: "\<exists>r. find_code tokens from = Inr r"
proof -
  have a: "\<exists>r. code_loop wa_re tokens [from ..< length tokens] = Inr r"
    by (rule code_loop_total) simp
  have b: "\<exists>r. code_loop short_re tokens [from ..< length tokens] = Inr r"
    by (rule code_loop_total) simp
  from a b show ?thesis
    unfolding find_code_def by (auto split: option.splits)
qed

lemma derive_color_total: "\<exists>r. derive_color tokens found = Inr r"
  by (auto simp: derive_color_def at_index_def Let_def split: option.splits)

lemma parsePaintLineFlexible_total: "\<exists>r. parsePaintLineFlexible line = Inr r"
proof -
  define tokens where "tokens = split_sp [] (normalize_line line)"
  obtain rq where q: "find_qty tokens (start_index tokens) = Inr rq"
    using find_qty_total by blast
  show ?thesis
  proof (cases rq)
    case None
    with q show ?thesis
      by (simp add: parsePaintLineFlexible_def Let_def tokens_def)
  next
    case (Some qq)
    obtain qi qv where qq: "qq = (qi, qv)" by (cases qq)
    obtain ru where u: "find_unit tokens qi = Inr ru"
      using find_unit_total by blast
    show ?thesis
    proof (cases ru)
      case None
      with q u Some qq show ?thesis
        by (simp add: parsePaintLineFlexible_def Let_def tokens_def)
    next
      case (Some uu)
      obtain ui uv where uu: "uu = (ui, uv)" by (cases uu)
      obtain rc where c: "find_code tokens (ui + 1) = Inr rc"
        using find_code_total by blast
      obtain col where d: "derive_color tokens rc = Inr col"
        using derive_color_total by blast
      from q u c d \<open>rq = Some qq\<close> qq Some uu show ?thesis
        by (simp add: parsePaintLineFlexible_def Let_def tokens_def)
    qed
  qed
qed

lemma supplier_loop_total: "\<forall>i\<in>set is. i < length lines \<Longrightarrow> \<exists>r. supplier_loop lines is = Inr r"
  by (induction "is") (auto simp: at_index_def Let_def)

lemma extractSupplier_total: "\<exists>r. extractSupplier text = Inr r"
  unfolding extractSupplier_def Let_def by (rule supplier_loop_total) simp

lemma rx_run_groups:
  "rx_run ci ps pos s opn caps = Some r \<Longrightarrow> length r = length caps + count_groups ps"
  "rx_rep ci lo k ps pos s opn caps = Some r \<Longrightarrow> length r = length caps + count_groups ps"
proof (induction ci ps pos s opn caps and ci lo k ps pos s opn caps arbitrary: r and r
    rule: rx_run_rx_rep.induct)
  case (1 ci pos s opn caps)
  then show ?case by auto
next
  case (2 ci l ps pos s opn caps)
  then show ?case by (simp split: if_splits)
next
  case (3 ci ps pos s opn caps)
  then show ?case by simp
next
  case (4 ci l ls ps pos s opn caps)
  show ?case
  proof (cases "rx_run ci (RLit l # ps) pos s opn caps")
    case None
    with 4 show ?thesis by simp
  next
    case (Some a)
    with 4(1)[of a] 4(3) show ?thesis by simp
  qed
next
  case (5 ci cls lo hi ps pos s opn caps)
  then show ?case by simp
next
  case (6 ci ps pos s opn caps)
  then show ?case by simp
next
  case (7 ci ps pos s opn caps)
  then show ?case by (cases opn) auto
next
  case (8 ci ps pos s opn caps)
  then show ?case by (simp split: if_splits)
next
  case (9 ci ps pos s opn caps)
  then show ?case by (simp split: if_splits)
next
  case (10 ci lo k ps pos s opn caps)
  show ?case
  proof (cases "k < lo")
    case True
    with 10(3) show ?thesis by simp
  next
    case False
    note nlt = this
    show ?thesis
    proof (cases "rx_run ci ps (pos + k) (drop k s) opn caps")
      case None
      with 10(2)[OF nlt None] 10(3) nlt show ?thesis by (simp split: if_splits)
    next
      case (Some a)
      with 10(1)[OF nlt, of a] 10(3) nlt show ?thesis by simp
    qed
  qed
qed

lemma rx_search_groups:
  "rx_search re pos s = Some r \<Longrightarrow> length r = count_groups (pieces re)"
  by (induction s arbitrary: pos) (auto split: option.splits dest: rx_run_groups(1))

lemma rx_match_groups: "rx_match re s = Some r \<Longrightarrow> length r = count_groups (pieces re)"
  unfolding rx_match_def by (rule rx_search_groups)

lemma extractInvoiceNumber_total: "\<exists>r. extractInvoiceNumber text = Inr r"
  by (auto simp: extractInvoiceNumber_def group_def at_index_def invoice_re_def
      split: option.splits dest!: rx_match_groups)

lemma extractTotal_total: "\<exists>r. extractTotal text = Inr r"
  by (auto simp: extractTotal_def group_def at_index_def total_re_def due_re_def amount_pieces_def
      split: option.splits dest!: rx_match_groups)

text \<open>
  C1: on every input string the parser of paint lines and the three header extractors
  (\<open>extractSupplier\<close>, \<open>extractInvoiceNumber\<close>, \<open>extractTotal\<close>) return a result
  and never throw: no read of an array or of a match is out of range. On the empty string
  and on a string of blanks the results are "no item", the empty string, the empty string
  and null.
\<close>

theorem extractors_total:
  "(\<exists>r. parsePaintLineFlexible s = Inr r) \<and> (\<exists>r. extractSupplier s = Inr r) \<and>
   (\<exists>r. extractInvoiceNumber s = Inr r) \<and> (\<exists>r. extractTotal s = Inr r) \<and>
   parsePaintLineFlexible [] = Inr None \<and> extractSupplier [] = Inr [] \<and>
   extractInvoiceNumber [] = Inr [] \<and> extractTotal [] = Inr None \<and>
   parsePaintLineFlexible ''   '' = Inr None \<and> extractSupplier ''   '' = Inr [] \<and>
   extractInvoiceNumber ''   '' = Inr [] \<and> extractTotal ''   '' = Inr None"
proof -
  have "parsePaintLineFlexible [] = Inr None" by code_simp
  moreover have "extractSupplier [] = Inr []" by code_simp
  moreover have "extractInvoiceNumber [] = Inr []" by code_simp
  moreover have "extractTotal [] = Inr None" by code_simp
  moreover have "parsePaintLineFlexible ''   '' = Inr None" by code_simp
  moreover have "extractSupplier ''   '' = Inr []" by code_simp
  moreover have "extractInvoiceNumber ''   '' = Inr []" by code_simp
  moreover have "extractTotal ''   '' = Inr None" by code_simp
  ultimately show ?thesis
    using parsePaintLineFlexible_total extractSupplier_total extractInvoiceNumber_total
      extractTotal_total by simp
qed

lemma qty_loop_None:
  "\<forall>i\<in>set is. i < length tokens \<and> \<not> parses_as_number (tokens ! i) \<Longrightarrow>
     qty_loop tokens is = Inr None"
  by (induction "is") (auto simp: at_index_def Let_def parses_as_number_def split: number.splits)

text \<open>
  C2: a line that contains paint, in any casing, and in which no token of the window
  after the anchor (the five tokens at the indices \<open>startIdx + 1\<close> to \<open>startIdx + 5\<close>)
  parses as a number, is no item: the parser returns null. "Paint Job Special" is such a
  line.
\<close>

theorem no_quantity_no_item:
  assumes "rx_test paint_re line"
    and "\<forall>t\<in>set (slice (tokenize line) (start_index (tokenize line) + 1)
                  (start_index (tokenize line) + 6)). \<not> parses_as_number t"
  shows "parsePaintLineFlexible line = Inr None"
proof -
  have "find_qty (tokenize line) (start_index (tokenize line)) = Inr None"
    unfolding find_qty_def using assms(2)
    by (intro qty_loop_None) (simp add: slice_indices)
  then show ?thesis
    by (simp add: parsePaintLineFlexible_def Let_def tokenize_def)
qed

theorem no_quantity_no_item_witness:
  "rx_test paint_re ''Paint Job Special'' \<and> parsePaintLineFlexible ''Paint Job Special'' = Inr None"
proof -
  have h1: "rx_test paint_re ''Paint Job Special''" by code_simp
  have h2: "\<forall>t\<in>set (slice (tokenize ''Paint Job Special'')
                  (start_index (tokenize ''Paint Job Special'') + 1)
                  (start_index (tokenize ''Paint Job Special'') + 6)). \<not> parses_as_number t"
    by code_simp
  show ?thesis using h1 no_quantity_no_item [OF h1 h2] by simp
qed


section \<open>The product code\<close>

lemma code_loop_find:
  "\<forall>i\<in>set is. i < length tokens \<Longrightarrow>
     code_loop re tokens is =
       Inr (map_option (\<lambda>i. (i, tokens ! i)) (find (\<lambda>i. rx_test re (tokens ! i)) is))"
  by (induction "is") (auto simp: at_index_def)

lemma find_skip: "\<forall>x\<in>set xs. \<not> P x \<Longrightarrow> find P (xs @ ys) = find P ys"
  by (induction xs) auto

lemma find_upt_first:
  assumes "a \<le> i" "i < b" "P i" "\<forall>j\<in>{a ..< i}. \<not> P j"
  shows "find P [a ..< b] = Some i"
proof -
  have "[a ..< i + (b - i)] = [a ..< i] @ [i ..< i + (b - i)]"
    using assms(1) by (rule upt_add_eq_append)
  then have "[a ..< b] = [a ..< i] @ i # [Suc i ..< b]"
    using assms(2) by (simp add: upt_conv_Cons)
  moreover have "\<forall>x\<in>set [a ..< i]. \<not> P x" using assms(4) by simp
  ultimately show ?thesis using assms(3) by (simp add: find_skip)
qed

lemma find_upt_none: "\<forall>j\<in>{a ..< b}. \<not> P j \<Longrightarrow> find P [a ..< b] = None"
  by (simp add: find_None_iff)

text \<open>
  C5: the search for the product code, from the index \<open>searchFrom\<close> to the end of the
  line. When some token of the remainder matches the WA pattern (WA and three to five
  digits, in any casing) the result is the first such token, whatever comes before it.
  The pattern of short codes (two to six letters or digits) decides only when no token of
  the remainder matches the WA pattern, and then its first match is the result. With no
  match of either pattern no code is found.
\<close>

theorem find_code_precedence:
  "(searchFrom \<le> i \<and> i < length tokens \<and> rx_test wa_re (tokens ! i) \<and>
      (\<forall>j\<in>{searchFrom ..< i}. \<not> rx_test wa_re (tokens ! j))
      \<longrightarrow> find_code tokens searchFrom = Inr (Some (i, tokens ! i))) \<and>
   ((\<forall>j\<in>{searchFrom ..< length tokens}. \<not> rx_test wa_re (tokens ! j)) \<and>
      searchFrom \<le> i \<and> i < length tokens \<and> rx_test short_re (tokens ! i) \<and>
      (\<forall>j\<in>{searchFrom ..< i}. \<not> rx_test short_re (tokens ! j))
      \<longrightarrow> find_code tokens searchFrom = Inr (Some (i, tokens ! i))) \<and>
   ((\<forall>j\<in>{searchFrom ..< length tokens}.
        \<not> rx_test wa_re (tokens ! j) \<and> \<not> rx_test short_re (tokens ! j))
      \<longrightarrow> find_code tokens searchFrom = Inr None) \<and>
   rx_test wa_re t =
     (\<exists>ds. toLowerCase t = ''wa'' @ ds \<and> 3 \<le> length ds \<and> length ds \<le> 5 \<and>
        list_all is_digit ds) \<and>
   rx_test short_re t = (2 \<le> length t \<and> length t \<le> 6 \<and> list_all is_alnum t)"
proof -
  have loop: "code_loop re tokens [searchFrom ..< length tokens] =
      Inr (map_option (\<lambda>i. (i, tokens ! i))
        (find (\<lambda>i. rx_test re (tokens ! i)) [searchFrom ..< length tokens]))" for re
    by (rule code_loop_find) simp
  have "(searchFrom \<le> i \<and> i < length tokens \<and> rx_test wa_re (tokens ! i) \<and>
      (\<forall>j\<in>{searchFrom ..< i}. \<not> rx_test wa_re (tokens ! j))
      \<longrightarrow> find_code tokens searchFrom = Inr (Some (i, tokens ! i))) \<and>
   ((\<forall>j\<in>{searchFrom ..< length tokens}. \<not> rx_test wa_re (tokens ! j)) \<and>
      searchFrom \<le> i \<and> i < length tokens \<and> rx_test short_re (tokens ! i) \<and>
      (\<forall>j\<in>{searchFrom ..< i}. \<not> rx_test short_re (tokens ! j))
      \<longrightarrow> find_code tokens searchFrom = Inr (Some (i, tokens ! i))) \<and>
   ((\<forall>j\<in>{searchFrom ..< length tokens}.
        \<not> rx_test wa_re (tokens ! j) \<and> \<not> rx_test short_re (tokens ! j))
      \<longrightarrow> find_code tokens searchFrom = Inr None)"
    unfolding find_code_def loop
    by (auto simp: find_upt_first find_upt_none)
  then show ?thesis
    using wa_re_plain [of t] short_re_plain [of t] by blast
qed

theorem find_code_precedence_witness:
  "find_code [''Pint'', ''k3g'', ''WA8624'', ''WHITE''] 1 = Inr (Some (2, ''WA8624'')) \<and>
   find_code [''Pint'', ''k3g'', ''122.00''] 1 = Inr (Some (1, ''k3g'')) \<and>
   find_code [''Pint'', ''GM/CHEV'', ''122.00''] 1 = Inr None"
proof -
  have a: "1 \<le> (2::nat) \<and> 2 < length [''Pint'', ''k3g'', ''WA8624'', ''WHITE''] \<and>
      rx_test wa_re ([''Pint'', ''k3g'', ''WA8624'', ''WHITE''] ! 2) \<and>
      (\<forall>j\<in>{1 ..< 2}. \<not> rx_test wa_re ([''Pint'', ''k3g'', ''WA8624'', ''WHITE''] ! j))"
    by code_simp
  have b: "(\<forall>j\<in>{1 ..< length [''Pint'', ''k3g'', ''122.00'']}.
        \<not> rx_test wa_re ([''Pint'', ''k3g'', ''122.00''] ! j)) \<and>
      1 \<le> (1::nat) \<and> 1 < length [''Pint'', ''k3g'', ''122.00''] \<and>
      rx_test short_re ([''Pint'', ''k3g'', ''122.00''] ! 1) \<and>
      (\<forall>j\<in>{1 ..< 1}. \<not> rx_test short_re ([''Pint'', ''k3g'', ''122.00''] ! j))"
    by code_simp
  have c: "\<forall>j\<in>{1 ..< length [''Pint'', ''GM/CHEV'', ''122.00'']}.
        \<not> rx_test wa_re ([''Pint'', ''GM/CHEV'', ''122.00''] ! j) \<and>
        \<not> rx_test short_re ([''Pint'', ''GM/CHEV'', ''122.00''] ! j)"
    by code_simp
  show ?thesis
    using a b c
      find_code_precedence [of 1 2 "[''Pint'', ''k3g'', ''WA8624'', ''WHITE'']" "''WA8624''"]
      find_code_precedence [of 1 1 "[''Pint'', ''k3g'', ''122.00'']" "''k3g''"]
      find_code_precedence [of 1 1 "[''Pint'', ''GM/CHEV'', ''122.00'']" "''GM/CHEV''"]
    by simp
qed


section \<open>The make of an item\<close>

lemma split_sp_no_space_aux:
  "t \<in> set (split_sp cur s) \<Longrightarrow> CHR '' '' \<notin> set cur \<Longrightarrow> CHR '' '' \<notin> set t"
proof (induction s arbitrary: cur)
  case Nil
  then show ?case by simp
next
  case (Cons a s)
  show ?case
  proof (cases "a = CHR '' ''")
    case True
    with Cons.prems have "t = cur \<or> t \<in> set (split_sp [] s)" by simp
    then show ?thesis using Cons.IH [of "[]"] Cons.prems(2) by auto
  next
    case False
    with Cons.prems have "t \<in> set (split_sp (cur @ [a]) s)" by simp
    then show ?thesis using Cons.IH [of "cur @ [a]"] Cons.prems(2) False by auto
  qed
qed

lemma split_sp_no_space:
  "CHR '' '' \<notin> set cur \<Longrightarrow> \<forall>t\<in>set (split_sp cur s). CHR '' '' \<notin> set t"
  using split_sp_no_space_aux by blast

lemma parse_unfold:
  "parsePaintLineFlexible line =
     (if \<not> rx_test paint_re (normalize_line line) then Inr None
      else
        (case find_qty (tokenize line) (start_index (tokenize line)) of
           Inl e \<Rightarrow> Inl e
         | Inr None \<Rightarrow> Inr None
         | Inr (Some (qtyIdx, q)) \<Rightarrow>
             (case find_unit (tokenize line) qtyIdx of
                Inl e \<Rightarrow> Inl e
              | Inr None \<Rightarrow> Inr None
              | Inr (Some (unitIdx, u)) \<Rightarrow>
                  if u = [] then Inr None
                  else
                    (case find_code (tokenize line) (unitIdx + 1) of
                       Inl e \<Rightarrow> Inl e
                     | Inr found \<Rightarrow>
                         (case derive_color (tokenize line) found of
                            Inl e \<Rightarrow> Inl e
                          | Inr col \<Rightarrow>
                              Inr (Some \<lparr>qty = q,
                                unit = or_else (normalizeUnit u) (or_else u []),
                                make' = or_else (derive_make (tokenize line)
                                    (start_index (tokenize line)) qtyIdx unitIdx found)
                                         ''Unknown'',
                                code = or_else (case found of None \<Rightarrow> [] | Some (i, c) \<Rightarrow> c) [],
                                color = or_else col []\<rparr>))))))"
  unfolding parsePaintLineFlexible_def Let_def tokenize_def by (rule refl)

lemma split_sp_word:
  "CHR '' '' \<notin> set x \<Longrightarrow> split_sp cur (x @ s) = split_sp (cur @ x) s"
  by (induction x arbitrary: cur) auto

lemma split_sp_join:
  "f \<noteq> [] \<Longrightarrow> \<forall>t\<in>set f. CHR '' '' \<notin> set t \<Longrightarrow>
     split_sp cur (join '' '' f) = (cur @ hd f) # tl f"
proof (induction "'' ''" f arbitrary: cur rule: join.induct)
  case 1
  then show ?case by simp
next
  case (2 x)
  then show ?case using split_sp_word [of x cur "[]"] by simp
next
  case (3 x y ys)
  have "split_sp cur (x @ '' '' @ join '' '' (y # ys)) =
        split_sp (cur @ x) ('' '' @ join '' '' (y # ys))"
    using 3(3) by (intro split_sp_word) simp
  also have "\<dots> = (cur @ x) # split_sp [] (join '' '' (y # ys))" by simp
  also have "split_sp [] (join '' '' (y # ys)) = y # ys"
    using 3(1) [of "[]"] 3(3) by simp
  finally show ?case by simp
qed

lemma drop_brands_free: "\<forall>t\<in>set (drop_brands ts). toLowerCase t \<notin> set brandWords"
  by (simp add: drop_brands_def)

lemma drop_brands_subset: "set (drop_brands ts) \<subseteq> set ts"
  by (auto simp: drop_brands_def)

lemma slice_subset: "set (slice xs a b) \<subseteq> set xs"
  unfolding slice_def by (meson set_take_subset set_drop_subset subset_trans)

lemma unknown_not_brand: "toLowerCase ''Unknown'' \<notin> set brandWords"
  by code_simp

lemma make_tokens_brand_free:
  assumes "\<forall>t\<in>set ts. CHR '' '' \<notin> set t"
  shows "\<forall>w\<in>set (split_sp [] (or_else (join '' '' (drop_brands ts)) ''Unknown'')).
           toLowerCase w \<notin> set brandWords"
proof (cases "join '' '' (drop_brands ts) = []")
  case True
  then show ?thesis using unknown_not_brand by (simp add: or_else_def)
next
  case False
  then have ne: "drop_brands ts \<noteq> []" by auto
  have "\<forall>t\<in>set (drop_brands ts). CHR '' '' \<notin> set t"
    using assms drop_brands_subset by blast
  with ne have "split_sp [] (join '' '' (drop_brands ts)) = drop_brands ts"
    by (simp add: split_sp_join)
  with False show ?thesis using drop_brands_free by (simp add: or_else_def)
qed

lemma or_else_make_from:
  "or_else (make_from raw) ''Unknown'' = or_else (join '' '' (drop_brands raw)) ''Unknown''"
  by (simp add: make_from_def or_else_def Let_def)

lemma code_loop_from: "code_loop re tokens is = Inr (Some (i, c)) \<Longrightarrow> i \<in> set is"
  by (induction "is") (auto split: sum.splits if_splits)

lemma find_code_from: "find_code tokens from = Inr (Some (i, c)) \<Longrightarrow> from \<le> i"
  by (auto simp: find_code_def split: sum.splits option.splits dest!: code_loop_from)

lemma qty_loop_from: "qty_loop tokens is = Inr (Some (i, q)) \<Longrightarrow> i \<in> set is"
  by (induction "is") (auto simp: Let_def split: sum.splits if_splits number.splits)

text \<open>
  C4, as the code has it: take a parsed line in which a product code was found. When the
  code does not directly follow the unit (\<open>unitIdx + 1 < codeIdx\<close>), the make is the span
  of tokens from \<open>unitIdx + 1\<close> up to the code, without its brand words and joined by
  spaces, and it is "Unknown" when nothing is left of that span. Only when the code
  directly follows the unit is the make taken from the span between the keyword and the
  quantity, filtered and joined in the same way, and "Unknown" when that is empty. In
  every case no word of the make is one of the brand words mipa, ppg, basf, sherwin,
  dupont, spi, standox.
\<close>

theorem make_derivation:
  assumes "parsePaintLineFlexible line = Inr (Some it)"
    and "find_qty (tokenize line) (start_index (tokenize line)) = Inr (Some (qtyIdx, q))"
    and "find_unit (tokenize line) qtyIdx = Inr (Some (unitIdx, u))"
    and "find_code (tokenize line) (unitIdx + 1) = Inr (Some (codeIdx, c))"
  shows "code it = c \<and> unitIdx + 1 \<le> codeIdx \<and>
    make' it =
      (if unitIdx + 1 < codeIdx
       then or_else (join '' '' (drop_brands (slice (tokenize line) (unitIdx + 1) codeIdx)))
              ''Unknown''
       else or_else (join '' '' (drop_brands
              (slice (tokenize line) (start_index (tokenize line) + 1) qtyIdx))) ''Unknown'') \<and>
    (\<forall>w\<in>set (split_sp [] (make' it)). toLowerCase w \<notin> set brandWords)"
proof -
  let ?tokens = "tokenize line"
  let ?s = "start_index ?tokens"
  have sp: "\<forall>t\<in>set ?tokens. CHR '' '' \<notin> set t"
    unfolding tokenize_def by (rule split_sp_no_space) simp
  have sp': "\<forall>t\<in>set (slice ?tokens a b). CHR '' '' \<notin> set t" for a b
    using sp slice_subset [of ?tokens a b] by (simp only: subset_eq Ball_def) metis
  from assms(2) have "qtyIdx \<in> set [?s + 1 ..< min (length ?tokens) (?s + 6)]"
    unfolding find_qty_def by (rule qty_loop_from)
  then have qs: "?s + 1 \<le> qtyIdx" by simp
  have empty: "\<not> ?s + 1 < qtyIdx \<Longrightarrow> slice ?tokens (?s + 1) qtyIdx = []"
    using qs by (simp add: slice_def)
  from assms(1) have res: "(case derive_color ?tokens (Some (codeIdx, c)) of
        Inl e \<Rightarrow> Inl e
      | Inr col \<Rightarrow> Inr (Some \<lparr>qty = q,
          unit = or_else (normalizeUnit u) (or_else u []),
          make' = or_else (derive_make ?tokens ?s qtyIdx unitIdx (Some (codeIdx, c))) ''Unknown'',
          code = or_else c [], color = or_else col []\<rparr>)) = Inr (Some it)"
    using assms(4) by (simp add: parse_unfold assms(2,3) split: if_splits cong: sum.case_cong)
  then obtain col where it: "it = \<lparr>qty = q,
      unit = or_else (normalizeUnit u) (or_else u []),
      make' = or_else (derive_make ?tokens ?s qtyIdx unitIdx (Some (codeIdx, c))) ''Unknown'',
      code = or_else c [], color = or_else col []\<rparr>"
    by (cases "derive_color ?tokens (Some (codeIdx, c))") auto
  have mk: "make' it =
      (if unitIdx + 1 < codeIdx
       then or_else (join '' '' (drop_brands (slice ?tokens (unitIdx + 1) codeIdx))) ''Unknown''
       else or_else (join '' '' (drop_brands (slice ?tokens (?s + 1) qtyIdx))) ''Unknown'')"
  proof (cases "unitIdx + 1 < codeIdx")
    case True
    then show ?thesis by (simp add: it derive_make_def or_else_make_from)
  next
    case False
    note far = this
    show ?thesis
    proof (cases "?s + 1 < qtyIdx")
      case True
      with far show ?thesis by (simp add: it derive_make_def or_else_make_from)
    next
      case False
      then have "slice ?tokens (?s + 1) qtyIdx = []" by (rule empty)
      then have "or_else (join '' '' (drop_brands (slice ?tokens (?s + 1) qtyIdx))) ''Unknown''
          = ''Unknown''"
        by (simp add: drop_brands_def or_else_def)
      with far False show ?thesis by (simp add: it derive_make_def or_else_def)
    qed
  qed
  have cd: "code it = c" by (simp add: it or_else_def)
  have bf: "\<forall>w\<in>set (split_sp [] (make' it)). toLowerCase w \<notin> set brandWords"
  proof (cases "unitIdx + 1 < codeIdx")
    case True
    then show ?thesis
      using make_tokens_brand_free [OF sp', of "unitIdx + 1" codeIdx] by (simp only: mk if_True)
  next
    case False
    then show ?thesis
      using make_tokens_brand_free [OF sp', of "?s + 1" qtyIdx] by (simp only: mk if_False)
  qed
  have ge: "unitIdx + 1 \<le> codeIdx" using assms(4) by (rule find_code_from)
  show ?thesis by (intro conjI) (rule cd, rule ge, rule mk, rule bf)
qed

theorem make_derivation_witness:
  "parsePaintLineFlexible ''Paint 1 Pint MIPA GM/CHEV WA8624 WHITE'' =
     Inr (Some \<lparr>qty = Num 1, unit = ''Pint'', make' = ''GM/CHEV'', code = ''WA8624'',
                 color = ''WHITE''\<rparr>) \<and>
   drop_brands (slice (tokenize ''Paint 1 Pint MIPA GM/CHEV WA8624 WHITE'') 3 5) = [''GM/CHEV''] \<and>
   parsePaintLineFlexible ''Paint GM/CHEV 0.5 Pint WA8624 White'' =
     Inr (Some \<lparr>qty = Num (1 / 2), unit = ''Pint'', make' = ''GM/CHEV'', code = ''WA8624'',
                 color = ''White''\<rparr>) \<and>
   drop_brands (slice (tokenize ''Paint GM/CHEV 0.5 Pint WA8624 White'') 1 2) = [''GM/CHEV'']"
proof -
  let ?a = "''Paint 1 Pint MIPA GM/CHEV WA8624 WHITE''"
  let ?b = "''Paint GM/CHEV 0.5 Pint WA8624 White''"
  have a1: "parsePaintLineFlexible ?a =
     Inr (Some \<lparr>qty = Num 1, unit = ''Pint'', make' = ''GM/CHEV'', code = ''WA8624'',
                 color = ''WHITE''\<rparr>)"
    by code_simp
  have a2: "find_qty (tokenize ?a) (start_index (tokenize ?a)) = Inr (Some (1, Num 1))"
    by code_simp
  have a3: "find_unit (tokenize ?a) 1 = Inr (Some (2, ''Pint''))" by code_simp
  have a4: "find_code (tokenize ?a) (2 + 1) = Inr (Some (5, ''WA8624''))" by code_simp
  have a5: "drop_brands (slice (tokenize ?a) 3 5) = [''GM/CHEV'']" by code_simp
  have b1: "parsePaintLineFlexible ?b =
     Inr (Some \<lparr>qty = Num (1 / 2), unit = ''Pint'', make' = ''GM/CHEV'', code = ''WA8624'',
                 color = ''White''\<rparr>)"
    by code_simp
  have b2: "find_qty (tokenize ?b) (start_index (tokenize ?b)) = Inr (Some (2, Num (1 / 2)))"
    by code_simp
  have b3: "find_unit (tokenize ?b) 2 = Inr (Some (3, ''Pint''))" by code_simp
  have b4: "find_code (tokenize ?b) (3 + 1) = Inr (Some (4, ''WA8624''))" by code_simp
  have b5: "drop_brands (slice (tokenize ?b) 1 2) = [''GM/CHEV'']" by code_simp
  show ?thesis
    using a1 a5 b1 b5 make_derivation [OF a1 a2 a3 a4] make_derivation [OF b1 b2 b3 b4]
    by simp
qed

text \<open>
  The second tier is not a fall-back from an emptied first span: on
  "Paint GM 1 Pint MIPA WA8624 WHITE" the span between unit and code holds the brand word
  alone, the span between keyword and quantity is "GM", and the make is "Unknown".
\<close>

theorem make_fallback_counterexample:
  "parsePaintLineFlexible ''Paint GM 1 Pint MIPA WA8624 WHITE'' =
     Inr (Some \<lparr>qty = Num 1, unit = ''Pint'', make' = ''Unknown'', code = ''WA8624'',
                 color = ''WHITE''\<rparr>) \<and>
   tokenize ''Paint GM 1 Pint MIPA WA8624 WHITE'' =
     [''Paint'', ''GM'', ''1'', ''Pint'', ''MIPA'', ''WA8624'', ''WHITE''] \<and>
   start_index (tokenize ''Paint GM 1 Pint MIPA WA8624 WHITE'') = 0 \<and>
   find_qty (tokenize ''Paint GM 1 Pint MIPA WA8624 WHITE'') 0 = Inr (Some (2, Num 1)) \<and>
   find_unit (tokenize ''Paint GM 1 Pint MIPA WA8624 WHITE'') 2 = Inr (Some (3, ''Pint'')) \<and>
   find_code (tokenize ''Paint GM 1 Pint MIPA WA8624 WHITE'') 4 = Inr (Some (5, ''WA8624'')) \<and>
   drop_brands (slice (tokenize ''Paint GM 1 Pint MIPA WA8624 WHITE'') 4 5) = [] \<and>
   join '' '' (drop_brands (slice (tokenize ''Paint GM 1 Pint MIPA WA8624 WHITE'') 1 2)) = ''GM''"
proof -
  let ?l = "''Paint GM 1 Pint MIPA WA8624 WHITE''"
  have "parsePaintLineFlexible ?l =
     Inr (Some \<lparr>qty = Num 1, unit = ''Pint'', make' = ''Unknown'', code = ''WA8624'',
                 color = ''WHITE''\<rparr>)"
    by code_simp
  moreover have "tokenize ?l = [''Paint'', ''GM'', ''1'', ''Pint'', ''MIPA'', ''WA8624'', ''WHITE'']"
    by code_simp
  moreover have "start_index (tokenize ?l) = 0" by code_simp
  moreover have "find_qty (tokenize ?l) 0 = Inr (Some (2, Num 1))" by code_simp
  moreover have "find_unit (tokenize ?l) 2 = Inr (Some (3, ''Pint''))" by code_simp
  moreover have "find_code (tokenize ?l) 4 = Inr (Some (5, ''WA8624''))" by code_simp
  moreover have "drop_brands (slice (tokenize ?l) 4 5) = []" by code_simp
  moreover have "join '' '' (drop_brands (slice (tokenize ?l) 1 2)) = ''GM''" by code_simp
  ultimately show ?thesis by blast
qed

section \<open>The supplier\<close>

lemma supplier_loop_find:
  "\<forall>i\<in>set is. i < length lines \<Longrightarrow>
     supplier_loop lines is =
       Inr (case find (\<lambda>raw. \<not> is_boilerplate raw \<and> 4 \<le> length (filter is_alpha raw))
                  (map ((!) lines) is) of
              Some raw \<Rightarrow> raw | None \<Rightarrow> [])"
  by (induction "is") (auto simp: at_index_def Let_def)

text \<open>
  C7, as the code has it: \<open>extractSupplier\<close> looks at the first ten of the trimmed,
  non-empty lines of the text, passes over every line whose lower-case form contains one
  of invoice, bill to, ship to, date, total, www, .com, ga, and returns the first of the
  other lines that has at least four letters A-Z or a-z. When no line qualifies it returns
  the empty string.
\<close>

theorem extractSupplier_spec:
  "extractSupplier text =
     Inr (case find (\<lambda>raw. \<not> is_boilerplate raw \<and> 4 \<le> length (filter is_alpha raw))
                (take 10 (doc_lines text)) of
            Some raw \<Rightarrow> raw | None \<Rightarrow> []) \<and>
   is_boilerplate raw =
     (\<exists>w\<in>set [''invoice'', ''bill to'', ''ship to'', ''date'', ''total'', ''www'', ''.com'', ''ga''].
        \<exists>pre post. toLowerCase raw = pre @ w @ post)"
proof -
  have "map ((!) (doc_lines text)) [0 ..< min (length (doc_lines text)) 10] =
        take 10 (doc_lines text)"
    using slice_indices [of "doc_lines text" 0 10] by (simp add: slice_def)
  moreover have "supplier_loop (doc_lines text) [0 ..< min (length (doc_lines text)) 10] =
      Inr (case find (\<lambda>raw. \<not> is_boilerplate raw \<and> 4 \<le> length (filter is_alpha raw))
                  (map ((!) (doc_lines text)) [0 ..< min (length (doc_lines text)) 10]) of
              Some raw \<Rightarrow> raw | None \<Rightarrow> [])"
    by (rule supplier_loop_find) simp
  ultimately have a: "extractSupplier text =
     Inr (case find (\<lambda>raw. \<not> is_boilerplate raw \<and> 4 \<le> length (filter is_alpha raw))
                (take 10 (doc_lines text)) of
            Some raw \<Rightarrow> raw | None \<Rightarrow> [])"
    by (simp add: extractSupplier_def Let_def)
  have b: "is_boilerplate raw =
     (\<exists>w\<in>set [''invoice'', ''bill to'', ''ship to'', ''date'', ''total'', ''www'', ''.com'', ''ga''].
        \<exists>pre post. toLowerCase raw = pre @ w @ post)"
    unfolding is_boilerplate_def Let_def skip_words_def list_ex_iff str_includes_iff
    by (rule refl)
  from a b show ?thesis by (rule conjI)
qed

theorem extractSupplier_spec_witness:
  "extractSupplier (''Invoice #1807583'' @ [LF] @ ''PAINT MY RIDE'') = Inr ''PAINT MY RIDE'' \<and>
   is_boilerplate ''Invoice #1807583''"
proof -
  have h: "extractSupplier (''Invoice #1807583'' @ [LF] @ ''PAINT MY RIDE'') = Inr ''PAINT MY RIDE''"
    by code_simp
  have g: "is_boilerplate ''Invoice #1807583''" by code_simp
  show ?thesis
    using h g extractSupplier_spec [of "''Invoice #1807583'' @ [LF] @ ''PAINT MY RIDE''"
        "''Invoice #1807583''"]
    by simp
qed

text \<open>
  The first non-empty line is not a fall-back: a document whose only line is
  "Invoice #1807583" has the supplier "".
\<close>

theorem supplier_fallback_counterexample:
  "doc_lines ''Invoice #1807583'' = [''Invoice #1807583''] \<and>
   extractSupplier ''Invoice #1807583'' = Inr []"
proof -
  have "doc_lines ''Invoice #1807583'' = [''Invoice #1807583'']" by code_simp
  moreover have "extractSupplier ''Invoice #1807583'' = Inr []" by code_simp
  ultimately show ?thesis by (rule conjI)
qed

section \<open>The total amount\<close>

lemma rx_search_skip:
  "\<forall>k<length pre. rx_run (ignoreCase re) (pieces re) (pos + k) (drop k (pre @ rest)) None [] = None
     \<Longrightarrow> rx_search re pos (pre @ rest) = rx_search re (pos + length pre) rest"
proof (induction pre arbitrary: pos)
  case Nil
  then show ?case by simp
next
  case (Cons c pre)
  from Cons.prems have "rx_run (ignoreCase re) (pieces re) (pos + 0) (drop 0 ((c # pre) @ rest)) None [] = None"
    by blast
  then have h0: "rx_run (ignoreCase re) (pieces re) pos (c # (pre @ rest)) None [] = None"
    by simp
  have "\<forall>k<length pre. rx_run (ignoreCase re) (pieces re) (Suc pos + k) (drop k (pre @ rest)) None [] = None"
  proof (intro allI impI)
    fix k assume "k < length pre"
    then have "Suc k < length (c # pre)" by simp
    with Cons.prems have "rx_run (ignoreCase re) (pieces re) (pos + Suc k)
        (drop (Suc k) ((c # pre) @ rest)) None [] = None" by blast
    then show "rx_run (ignoreCase re) (pieces re) (Suc pos + k) (drop k (pre @ rest)) None [] = None"
      by simp
  qed
  then have "rx_search re (Suc pos) (pre @ rest) = rx_search re (Suc pos + length pre) rest"
    by (rule Cons.IH)
  with h0 show ?case by simp
qed

lemma rx_match_skip:
  "\<forall>k<length pre. \<not> matches_at re (pre @ rest) k \<Longrightarrow>
     rx_match re (pre @ rest) = rx_search re (length pre) rest"
  unfolding rx_match_def matches_at_def
  using rx_search_skip [of pre re 0 rest] by simp

lemmas char_class_defs = lit_match_def run_len_def toLowerCase_def lower_char_def is_upper_def
  is_space_def is_dollar_def is_digit_or_comma_def is_digit_def

lemma total_here: "rx_search total_re p (''Total $202.00'' @ post) = Some [''202.00'']"
  by (simp add: total_re_def amount_pieces_def char_class_defs)

lemma due_here:
  "rx_search due_re p (''Balance Due $1,250.00'' @ post) = Some [''Balance Due'', ''1,250.00'']"
  by (simp add: due_re_def amount_pieces_def char_class_defs)

lemma value_202: "parseFloat (remove_commas ''202.00'') = Num 202"
  by code_simp

lemma value_1250: "parseFloat (remove_commas ''1,250.00'') = Num 1250"
  by code_simp


text \<open>
  C8, as the code has it: \<open>extractTotal\<close> takes the leftmost match of the Total pattern,
  and only a text without one is searched for "amount due" or "balance due". So it
  returns 202.00 for a text that contains "Total $202.00" with no match of the Total
  pattern starting before it, returns 1250.00 (the comma removed) for a text without a
  match of the Total pattern that contains "Balance Due $1,250.00" with no match of the
  due pattern starting before it, and returns null, without throwing, for every text that
  matches neither pattern.
\<close>

theorem extractTotal_spec:
  "((\<forall>k<length pre. \<not> matches_at total_re (pre @ ''Total $202.00'' @ post) k)
      \<longrightarrow> extractTotal (pre @ ''Total $202.00'' @ post) = Inr (Some (Num 202))) \<and>
   (rx_match total_re (pre @ ''Balance Due $1,250.00'' @ post) = None \<and>
    (\<forall>k<length pre. \<not> matches_at due_re (pre @ ''Balance Due $1,250.00'' @ post) k)
      \<longrightarrow> extractTotal (pre @ ''Balance Due $1,250.00'' @ post) = Inr (Some (Num 1250))) \<and>
   (rx_match total_re text = None \<and> rx_match due_re text = None
      \<longrightarrow> extractTotal text = Inr None)"
proof (intro conjI impI)
  assume "\<forall>k<length pre. \<not> matches_at total_re (pre @ ''Total $202.00'' @ post) k"
  then have "rx_match total_re (pre @ ''Total $202.00'' @ post) = Some [''202.00'']"
    by (simp only: rx_match_skip total_here)
  then show "extractTotal (pre @ ''Total $202.00'' @ post) = Inr (Some (Num 202))"
    by (simp add: extractTotal_def group_def at_index_def value_202)
next
  assume a: "rx_match total_re (pre @ ''Balance Due $1,250.00'' @ post) = None \<and>
    (\<forall>k<length pre. \<not> matches_at due_re (pre @ ''Balance Due $1,250.00'' @ post) k)"
  then have "\<forall>k<length pre. \<not> matches_at due_re (pre @ ''Balance Due $1,250.00'' @ post) k"
    by (rule conjunct2)
  then have "rx_match due_re (pre @ ''Balance Due $1,250.00'' @ post) =
      Some [''Balance Due'', ''1,250.00'']"
    by (simp only: rx_match_skip due_here)
  with a show "extractTotal (pre @ ''Balance Due $1,250.00'' @ post) = Inr (Some (Num 1250))"
    by (simp add: extractTotal_def group_def at_index_def value_1250)
next
  assume "rx_match total_re text = None \<and> rx_match due_re text = None"
  then show "extractTotal text = Inr None"
    by (simp add: extractTotal_def)
qed

theorem extractTotal_spec_witness:
  "extractTotal ''Total $202.00'' = Inr (Some (Num 202)) \<and>
   extractTotal ''Balance Due $1,250.00'' = Inr (Some (Num 1250)) \<and>
   extractTotal ''Thank you for your business'' = Inr None \<and>
   extractTotal (''PAINT MY RIDE'' @ [LF] @ ''Tucker, GA'' @ [LF] @ ''Invoice # 1807583'' @ [LF]
      @ ''Paint 2 Quarts k3g 122.00 122.00'' @ [LF] @ ''Total $202.00'') = Inr (Some (Num 202))"
proof -
  let ?pre = "''PAINT MY RIDE'' @ [LF] @ ''Tucker, GA'' @ [LF] @ ''Invoice # 1807583'' @ [LF]
      @ ''Paint 2 Quarts k3g 122.00 122.00'' @ [LF]"
  have a: "\<forall>k<length ([]::string). \<not> matches_at total_re ([] @ ''Total $202.00'' @ []) k"
    by simp
  have b: "rx_match total_re ([] @ ''Balance Due $1,250.00'' @ []) = None \<and>
    (\<forall>k<length ([]::string). \<not> matches_at due_re ([] @ ''Balance Due $1,250.00'' @ []) k)"
    by code_simp
  have c: "rx_match total_re ''Thank you for your business'' = None \<and>
     rx_match due_re ''Thank you for your business'' = None"
    by code_simp
  have d: "\<forall>k<length ?pre. \<not> matches_at total_re (?pre @ ''Total $202.00'' @ []) k"
    by code_simp
  show ?thesis
    using a b c d
      extractTotal_spec [of "[]" "[]" "''Thank you for your business''"]
      extractTotal_spec [of ?pre "[]" "[]"]
    by simp
qed

text \<open>
  A text that contains "Total $202.00" need not have the total 202.00: the pattern
  matches "total $180.00" inside "Subtotal $180.00" first. A text that contains
  "Balance Due $1,250.00" and a match of the Total pattern has the total of that match.
\<close>

theorem total_leftmost_counterexample:
  "extractTotal (''Subtotal $180.00'' @ [LF] @ ''Total $202.00'') = Inr (Some (Num 180)) \<and>
   extractTotal (''Total $202.00'' @ [LF] @ ''Balance Due $1,250.00'') = Inr (Some (Num 202))"
proof -
  have "extractTotal (''Subtotal $180.00'' @ [LF] @ ''Total $202.00'') = Inr (Some (Num 180))"
    by code_simp
  moreover have "extractTotal (''Total $202.00'' @ [LF] @ ''Balance Due $1,250.00'')
      = Inr (Some (Num 202))"
    by code_simp
  ultimately show ?thesis by (rule conjI)
qed

section \<open>The notes\<close>

lemma format_loop_total: "\<exists>r. format_loop show_num ls = Inr r"
proof (induction ls)
  case Nil
  then show ?case by simp
next
  case (Cons line ls)
  obtain res where p: "parsePaintLineFlexible line = Inr res"
    using parsePaintLineFlexible_total by blast
  from Cons obtain rest where r: "format_loop show_num ls = Inr rest" by blast
  show ?case by (cases res) (simp_all add: p r)
qed

lemma format_loop_no_paint:
  "\<forall>l\<in>set ls. \<not> rx_test paint_re l \<Longrightarrow> format_loop show_num ls = Inr []"
  by (induction ls) simp_all

lemma formatPaintItems_total: "\<exists>r. formatPaintItems show_num text = Inr r"
proof -
  obtain r where "format_loop show_num (doc_lines text) = Inr r"
    using format_loop_total by blast
  then show ?thesis by (simp add: formatPaintItems_def)
qed

lemma formatPaintItems_no_paint:
  "\<forall>l\<in>set (doc_lines text). \<not> rx_test paint_re l \<Longrightarrow> formatPaintItems show_num text = Inr []"
  by (simp add: formatPaintItems_def format_loop_no_paint)

lemma fallback_no_paint:
  "\<forall>l\<in>set (doc_lines text). \<not> rx_test paint_re l \<Longrightarrow> extractPaintLinesFallback text = []"
proof -
  assume "\<forall>l\<in>set (doc_lines text). \<not> rx_test paint_re l"
  then have "filter (rx_test paint_re) (doc_lines text) = []"
    by (simp add: filter_empty_conv)
  then show ?thesis by (simp add: extractPaintLinesFallback_def)
qed

text \<open>
  C6, as the code has it: for a transcript that is not empty the notes are the first
  non-empty one of three texts, in this order: the formatted paint items, the lines that
  contain paint (in any casing) joined by newlines as they stand after trimming, and the
  first 800 characters of the transcript. In particular the notes of a non-empty
  transcript without a paint line are its first 800 characters. (An empty transcript is
  answered before this chain, with the notes "No text detected".)
\<close>

theorem notes_chain:
  assumes "text \<noteq> []"
  shows "\<exists>s items. handler_parsed show_num text = Inr s \<and>
      formatPaintItems show_num text = Inr items \<and>
      notes' s =
        (if items \<noteq> [] then items
         else if extractPaintLinesFallback text \<noteq> [] then extractPaintLinesFallback text
         else take 800 text) \<and>
      extractPaintLinesFallback text = join [LF] (filter (rx_test paint_re) (doc_lines text)) \<and>
      ((\<forall>l\<in>set (doc_lines text). \<not> rx_test paint_re l) \<longrightarrow> notes' s = take 800 text)"
proof -
  obtain supp where a: "extractSupplier text = Inr supp"
    using extractSupplier_total by blast
  obtain invno where b: "extractInvoiceNumber text = Inr invno"
    using extractInvoiceNumber_total by blast
  obtain tot where c: "extractTotal text = Inr tot"
    using extractTotal_total by blast
  obtain items where d: "formatPaintItems show_num text = Inr items"
    using formatPaintItems_total by blast
  let ?s = "\<lparr>supplier = supp, invoice_number = invno, cost = tot,
      notes' = or_else items (or_else (extractPaintLinesFallback text) (take 800 text))\<rparr>"
  have h: "handler_parsed show_num text = Inr ?s"
    using assms by (simp add: handler_parsed_def a b c d)
  have n: "notes' ?s =
        (if items \<noteq> [] then items
         else if extractPaintLinesFallback text \<noteq> [] then extractPaintLinesFallback text
         else take 800 text)"
    by (simp add: or_else_def)
  have f: "extractPaintLinesFallback text = join [LF] (filter (rx_test paint_re) (doc_lines text))"
    by (simp add: extractPaintLinesFallback_def)
  have e: "(\<forall>l\<in>set (doc_lines text). \<not> rx_test paint_re l) \<longrightarrow> notes' ?s = take 800 text"
  proof
    assume np: "\<forall>l\<in>set (doc_lines text). \<not> rx_test paint_re l"
    then have "items = []" using formatPaintItems_no_paint [OF np, of show_num] d by simp
    moreover have "extractPaintLinesFallback text = []" using np by (rule fallback_no_paint)
    ultimately show "notes' ?s = take 800 text" by (simp add: or_else_def)
  qed
  from h d n f e show ?thesis by blast
qed

theorem notes_chain_witness:
  "(\<exists>s. handler_parsed (\<lambda>n. ''2'') ''Thank you for your business'' = Inr s \<and>
        notes' s = ''Thank you for your business'') \<and>
   (\<exists>s. handler_parsed (\<lambda>n. ''2'') ''Paint Job Special'' = Inr s \<and>
        notes' s = ''Paint Job Special'') \<and>
   (\<exists>s. handler_parsed (\<lambda>n. ''2'') ''Paint 2 Quarts k3g 122.00 122.00'' = Inr s \<and>
        notes' s = ''Unknown | k3g | 122.00 | 2 Quart'')"
proof -
  have a0: "''Thank you for your business'' \<noteq> []" by simp
  have a1: "\<forall>l\<in>set (doc_lines ''Thank you for your business''). \<not> rx_test paint_re l"
    by code_simp
  have a2: "take 800 ''Thank you for your business'' = ''Thank you for your business''"
    by simp
  have b0: "''Paint Job Special'' \<noteq> []" by simp
  have b1: "formatPaintItems (\<lambda>n. ''2'') ''Paint Job Special'' = Inr []" by code_simp
  have b2: "extractPaintLinesFallback ''Paint Job Special'' = ''Paint Job Special''" by code_simp
  have c0: "''Paint 2 Quarts k3g 122.00 122.00'' \<noteq> []" by simp
  have c1: "formatPaintItems (\<lambda>n. ''2'') ''Paint 2 Quarts k3g 122.00 122.00''
      = Inr ''Unknown | k3g | 122.00 | 2 Quart''" by code_simp
  show ?thesis
    using a1 a2 b1 b2 c1
      notes_chain [OF a0, of "\<lambda>n. ''2''"] notes_chain [OF b0, of "\<lambda>n. ''2''"]
      notes_chain [OF c0, of "\<lambda>n. ''2''"]
    by auto
qed

text \<open>
  The empty transcript has no paint line, and its notes are not its first 800 characters:
  the guard \<open>if (!text)\<close> answers it with "No text detected".
\<close>

theorem empty_transcript_counterexample:
  "doc_lines [] = [] \<and>
   handler_parsed (\<lambda>n. []) [] =
     Inr \<lparr>supplier = [], invoice_number = [], cost = None, notes' = ''No text detected''\<rparr> \<and>
   take 800 ([] :: string) = []"
proof -
  have "doc_lines [] = []" by code_simp
  moreover have "handler_parsed (\<lambda>n. []) [] =
     Inr \<lparr>supplier = [], invoice_number = [], cost = None, notes' = ''No text detected''\<rparr>"
    by (simp add: handler_parsed_def)
  ultimately show ?thesis by simp
qed

end
